theory Spec2Isabelle
  imports Complex_Main "HOL-Library.Multiset"
begin

section \<open>Strings and insertion-ordered sets\<close>

text \<open>
  Identifiers are JavaScript strings. They are modelled as \<^typ>\<open>string\<close>, one
  \<^typ>\<open>char\<close> per code unit, so the modelled alphabet is the code units below 256.
  A JavaScript \<open>Set\<close> keeps its elements in insertion order; it is modelled as a list
  to which \<open>setAdd\<close> appends an element only when it is not yet there.
\<close>

definition startsWith :: "string \<Rightarrow> string \<Rightarrow> bool" where
  "startsWith s p = (take (length p) s = p)"

definition setAdd :: "'a \<Rightarrow> 'a list \<Rightarrow> 'a list" where
  "setAdd x xs = (if x \<in> set xs then xs else xs @ [x])"

section \<open>Data model of the family detector\<close>

text \<open>
  \<open>Member\<close> carries the attributes the detector reads. An optional string attribute is
  \<open>None\<close> when it is absent. \<open>FamilyData.members\<close> is a JavaScript object used as a
  dictionary: its own properties are modelled as an association list whose keys, in
  order, are what \<open>Object.keys\<close> enumerates. A link is the pair \<open>[from, to]\<close>.
\<close>

record Member =
  name :: "string option"
  first_name :: "string option"
  last_name :: "string option"
  is_spouse :: bool
  gender :: "string option"

record FamilyData =
  start :: string
  members :: "(string \<times> Member) list"
  links :: "(string \<times> string) list"

text \<open>
  \<open>data.members[k]\<close> reads a property of a plain object: the own property when \<open>k\<close> is
  a key, and otherwise what the object inherits from \<open>Object.prototype\<close>.
  \<open>objectPrototype\<close> lists the property names of \<open>Object.prototype\<close>. Their values are
  functions and, for \<open>__proto__\<close>, the prototype object itself: all are truthy, and read
  as a member they have no \<open>last_name\<close>, \<open>first_name\<close> or \<open>gender\<close>, a falsy
  \<open>is_spouse\<close> and, for a function, the name of the function as \<open>name\<close>. \<open>memberAt\<close>
  is the lookup; \<open>None\<close> stands for \<open>undefined\<close>.
\<close>

definition objectPrototype :: "(string \<times> Member) list" where
  "objectPrototype =
     map (\<lambda>(k, n). (k, \<lparr>name = n, first_name = None, last_name = None, is_spouse = False,
                          gender = None\<rparr>))
       [(''constructor'', Some ''Object''),
        (''__defineGetter__'', Some ''__defineGetter__''),
        (''__defineSetter__'', Some ''__defineSetter__''),
        (''hasOwnProperty'', Some ''hasOwnProperty''),
        (''__lookupGetter__'', Some ''__lookupGetter__''),
        (''__lookupSetter__'', Some ''__lookupSetter__''),
        (''isPrototypeOf'', Some ''isPrototypeOf''),
        (''propertyIsEnumerable'', Some ''propertyIsEnumerable''),
        (''toString'', Some ''toString''),
        (''valueOf'', Some ''valueOf''),
        (''__proto__'', None),
        (''toLocaleString'', Some ''toLocaleString'')]"

definition memberAt :: "FamilyData \<Rightarrow> string \<Rightarrow> Member option" where
  "memberAt d k =
     (case map_of (members d) k of
        Some member \<Rightarrow> Some member
      | None \<Rightarrow> map_of objectPrototype k)"

record Family =
  fam_id :: string
  fam_name :: string
  color :: string
  rootMemberId :: string
  memberCount :: nat

section \<open>Root discovery (findRootNodes)\<close>

text \<open>
  \<open>childrenSet\<close> collects the targets of the links whose source starts with \<open>u_\<close>
  and whose target does not.
\<close>

definition childrenSet :: "FamilyData \<Rightarrow> string list" where
  "childrenSet d =
     fold (\<lambda>(from, to) cs.
             if startsWith from ''u_'' \<and> \<not> startsWith to ''u_'' then setAdd to cs else cs)
          (links d) []"

text \<open>The loop over \<open>Object.keys(data.members)\<close> that pushes the natural roots.\<close>

definition naturalRoots :: "FamilyData \<Rightarrow> string list" where
  "naturalRoots d =
     fold (\<lambda>memberId roots.
             case memberAt d memberId of
               None \<Rightarrow> roots
             | Some member \<Rightarrow>
                 if memberId \<notin> set (childrenSet d) \<and> \<not> is_spouse member
                 then roots @ [memberId] else roots)
          (map fst (members d)) []"

text \<open>
  When there is no natural root and the member table is not empty, \<open>data.start\<close> is
  pushed, but only under the guard \<open>data.start && data.members[data.start]\<close>: the start
  id is a non-empty string and the lookup is not \<open>undefined\<close>.
\<close>

definition findRootNodes :: "FamilyData \<Rightarrow> string list" where
  "findRootNodes d =
     (let roots = naturalRoots d in
      if roots = [] \<and> members d \<noteq> [] then
        (if start d \<noteq> [] \<and> memberAt d (start d) \<noteq> None
         then roots @ [start d] else roots)
      else roots)"

section \<open>Colour assignment (colorGenerator.ts)\<close>

text \<open>
  JavaScript numbers are modelled as \<^typ>\<open>real\<close>: the arithmetic is exact. The index of
  a family is an array index, a \<^typ>\<open>nat\<close>.
\<close>

definition FAMILY_COLOR_PALETTE :: "string list" where
  "FAMILY_COLOR_PALETTE =
     [''#8B5CF6'', ''#10B981'', ''#3B82F6'', ''#F59E0B'', ''#EF4444'',
      ''#14B8A6'', ''#F97316'', ''#EC4899'', ''#6366F1'', ''#84CC16'']"

text \<open>The remainder operator \<open>%\<close>: the quotient is truncated towards zero.\<close>

definition trunc :: "real \<Rightarrow> int" where
  "trunc x = (if 0 \<le> x then \<lfloor>x\<rfloor> else \<lceil>x\<rceil>)"

definition jsRem :: "real \<Rightarrow> real \<Rightarrow> real" where
  "jsRem a b = a - b * of_int (trunc (a / b))"

text \<open>\<open>Math.round\<close> rounds a half upwards.\<close>

definition mathRound :: "real \<Rightarrow> int" where
  "mathRound x = \<lfloor>x + 1 / 2\<rfloor>"

text \<open>\<open>toString(16)\<close> of an integer, \<open>padStart(2, '0')\<close> and \<open>toUpperCase\<close> (on ASCII letters).\<close>

definition hexDigit :: "nat \<Rightarrow> char" where
  "hexDigit n = ''0123456789abcdef'' ! n"

fun toString16nat :: "nat \<Rightarrow> string" where
  "toString16nat n =
     (if n < 16 then [hexDigit n] else toString16nat (n div 16) @ [hexDigit (n mod 16)])"

declare toString16nat.simps [simp del]

definition toString16 :: "int \<Rightarrow> string" where
  "toString16 n = (if n < 0 then CHR ''-'' # toString16nat (nat (- n)) else toString16nat (nat n))"

definition padStart2 :: "string \<Rightarrow> string" where
  "padStart2 s = replicate (2 - length s) (CHR ''0'') @ s"

definition upperChar :: "char \<Rightarrow> char" where
  "upperChar c =
     (case map_of (zip ''abcdefghijklmnopqrstuvwxyz'' ''ABCDEFGHIJKLMNOPQRSTUVWXYZ'') c of
        None \<Rightarrow> c | Some u \<Rightarrow> u)"

definition toUpperCase :: "string \<Rightarrow> string" where
  "toUpperCase s = map upperChar s"

definition hslToHex :: "real \<Rightarrow> real \<Rightarrow> real \<Rightarrow> string" where
  "hslToHex h s l =
     (let sNorm = s / 100;
          lNorm = l / 100;
          c = (1 - \<bar>2 * lNorm - 1\<bar>) * sNorm;
          x = c * (1 - \<bar>jsRem (h / 60) 2 - 1\<bar>);
          m = lNorm - c / 2;
          (r, g, b) =
            (if 0 \<le> h \<and> h < 60 then (c, x, 0)
             else if 60 \<le> h \<and> h < 120 then (x, c, 0)
             else if 120 \<le> h \<and> h < 180 then (0, c, x)
             else if 180 \<le> h \<and> h < 240 then (0, x, c)
             else if 240 \<le> h \<and> h < 300 then (x, 0, c)
             else if 300 \<le> h \<and> h < 360 then (c, 0, x)
             else (0, 0, 0));
          rHex = padStart2 (toString16 (mathRound ((r + m) * 255)));
          gHex = padStart2 (toString16 (mathRound ((g + m) * 255)));
          bHex = padStart2 (toString16 (mathRound ((b + m) * 255)))
      in toUpperCase (''#'' @ rHex @ gHex @ bHex))"

definition generateFamilyColor :: "nat \<Rightarrow> string" where
  "generateFamilyColor index =
     (if index < length FAMILY_COLOR_PALETTE then FAMILY_COLOR_PALETTE ! index
      else hslToHex (jsRem (real index * (1375 / 10)) 360) 70 55)"

section \<open>Union identifiers (parseUnionId)\<close>

text \<open>
  \<open>unionId.match(/u_(.+)_(.+)/)\<close>. The dot matches every code unit but a line
  terminator; in the modelled alphabet these are line feed and carriage return.
  \<open>dotRun s\<close> is what a greedy \<open>.+\<close> consumes at the start of \<open>s\<close>.
  \<open>group1 r k\<close> backtracks the first group over the text \<open>r\<close> that follows \<open>u_\<close>: the
  group is tried with \<open>k\<close> characters, then \<open>k - 1\<close>, down to one, and is accepted when
  an underscore and at least one more dot character follow; the second group then takes
  the whole run. \<open>regexMatch\<close> tries the start positions from left to right.
\<close>

definition isLineTerminator :: "char \<Rightarrow> bool" where
  "isLineTerminator c = (c = CHR 0x0A \<or> c = CHR 0x0D)"

definition dotRun :: "string \<Rightarrow> string" where
  "dotRun s = takeWhile (\<lambda>c. \<not> isLineTerminator c) s"

fun group1 :: "string \<Rightarrow> nat \<Rightarrow> (string \<times> string) option" where
  "group1 r 0 = None"
| "group1 r (Suc k) =
     (case drop (Suc k) r of
        [] \<Rightarrow> group1 r k
      | c # rest \<Rightarrow>
          if c = CHR ''_'' \<and> dotRun rest \<noteq> [] then Some (take (Suc k) r, dotRun rest)
          else group1 r k)"

definition matchHere :: "string \<Rightarrow> (string \<times> string) option" where
  "matchHere s =
     (if startsWith s ''u_'' then group1 (drop 2 s) (length (dotRun (drop 2 s))) else None)"

fun regexMatch :: "string \<Rightarrow> (string \<times> string) option" where
  "regexMatch [] = None"
| "regexMatch (c # cs) =
     (case matchHere (c # cs) of Some g \<Rightarrow> Some g | None \<Rightarrow> regexMatch cs)"

definition parseUnionId :: "string \<Rightarrow> string list" where
  "parseUnionId unionId =
     (case regexMatch unionId of
        None \<Rightarrow> []
      | Some (id1, id2) \<Rightarrow>
          [if startsWith id1 ''mem_'' then id1 else ''mem_'' @ id1,
           if startsWith id2 ''mem_'' then id2 else ''mem_'' @ id2])"

section \<open>Link lookups\<close>

definition getUnionsForMember :: "FamilyData \<Rightarrow> string \<Rightarrow> string list" where
  "getUnionsForMember d memberId =
     map snd (filter (\<lambda>(from, to). from = memberId \<and> startsWith to ''u_'') (links d))"

definition getChildrenOfUnion :: "FamilyData \<Rightarrow> string \<Rightarrow> string list" where
  "getChildrenOfUnion d unionId =
     map snd (filter (\<lambda>(from, to). from = unionId \<and> \<not> startsWith to ''u_'') (links d))"

section \<open>Family names\<close>

definition isWhiteSpace :: "char \<Rightarrow> bool" where
  "isWhiteSpace c = (c \<in> set [CHR 0x09, CHR 0x0A, CHR 0x0B, CHR 0x0C, CHR 0x0D, CHR 0x20, CHR 0xA0])"

definition trim :: "string \<Rightarrow> string" where
  "trim s = rev (dropWhile isWhiteSpace (rev (dropWhile isWhiteSpace s)))"

text \<open>A string attribute is truthy when it is present and not empty.\<close>

definition truthy :: "string option \<Rightarrow> bool" where
  "truthy v = (case v of None \<Rightarrow> False | Some s \<Rightarrow> s \<noteq> [])"

definition getFamilyName :: "Member \<Rightarrow> string" where
  "getFamilyName member =
     (if truthy (last_name member) \<and> trim (the (last_name member)) \<noteq> []
      then ''Family of '' @ the (last_name member)
      else ''Family of '' @
        (if truthy (name member) then the (name member)
         else if truthy (first_name member) then the (first_name member)
         else ''Unknown''))"

section \<open>Family detection (detectFamilies)\<close>

text \<open>
  A loop that may run forever is a partial function into \<open>option\<close>: \<open>None\<close> stands for
  a call that does not return normally, be it that the loop never ends or that a
  \<open>TypeError\<close> is thrown on an undefined value.

  \<open>assignDescendants\<close> is the breadth-first loop. Its state is the queue, the
  \<open>visited\<close> set and the family's member set. \<open>processed\<close> is a trace: it records,
  in order, the member id of every iteration that gets past the visited check.
\<close>

definition enqueueChildren :: "FamilyData \<Rightarrow> string list \<Rightarrow> string list \<Rightarrow> string list \<Rightarrow> string list" where
  "enqueueChildren d visited unionIds queue =
     fold (\<lambda>unionId q.
             fold (\<lambda>childId q'. if childId \<notin> set visited then q' @ [childId] else q')
                  (getChildrenOfUnion d unionId) q)
          unionIds queue"

partial_function (option) assignDescendantsLoop ::
  "FamilyData \<Rightarrow> string list \<Rightarrow> string list \<Rightarrow> string list \<Rightarrow> string list
     \<Rightarrow> (string list \<times> string list) option" where
  "assignDescendantsLoop d queue visited processed familyMembers =
     (case queue of
        [] \<Rightarrow> Some (processed, familyMembers)
      | memberId # rest \<Rightarrow>
          if memberId \<in> set visited
          then assignDescendantsLoop d rest visited processed familyMembers
          else assignDescendantsLoop d
                 (enqueueChildren d (setAdd memberId visited) (getUnionsForMember d memberId) rest)
                 (setAdd memberId visited)
                 (processed @ [memberId])
                 (setAdd memberId familyMembers))"

declare assignDescendantsLoop.simps [code]

definition assignDescendantsTrace ::
  "FamilyData \<Rightarrow> string \<Rightarrow> string list \<Rightarrow> (string list \<times> string list) option" where
  "assignDescendantsTrace d rootId familyMembers =
     assignDescendantsLoop d [rootId] [] [] familyMembers"

definition assignDescendants :: "FamilyData \<Rightarrow> string \<Rightarrow> string list \<Rightarrow> string list option" where
  "assignDescendants d rootId familyMembers =
     map_option snd (assignDescendantsTrace d rootId familyMembers)"

text \<open>
  \<open>assignSpouses\<close> iterates over a copy of the member set; for each member, each of its
  unions and each partner parsed from the union's id, it adds the partner unless it is
  the member itself or the string \<open>0\<close>, or its lookup in the member table is
  \<open>undefined\<close>.
\<close>

definition addPartners :: "FamilyData \<Rightarrow> string \<Rightarrow> string list \<Rightarrow> string list \<Rightarrow> string list" where
  "addPartners d memberId partners familyMembers =
     fold (\<lambda>partnerId fm.
             if partnerId = memberId \<or> partnerId = ''0'' then fm
             else if memberAt d partnerId = None then fm
             else setAdd partnerId fm)
          partners familyMembers"

definition assignSpouses :: "FamilyData \<Rightarrow> string list \<Rightarrow> string list" where
  "assignSpouses d familyMembers =
     fold (\<lambda>memberId fm.
             fold (\<lambda>unionId fm'. addPartners d memberId (parseUnionId unionId) fm')
                  (getUnionsForMember d memberId) fm)
          familyMembers familyMembers"

record FamilyDetectionResult =
  families :: "Family list"
  memberToFamilies :: "string \<rightharpoonup> string list"
  familyColors :: "string \<rightharpoonup> string"

text \<open>
  Step 2: one family per root, in order; \<open>index\<close> is the position of the root in the
  root list. \<open>familyMemberSets\<close> maps a family id to its member set.
\<close>

fun createFamilies ::
  "FamilyData \<Rightarrow> (string \<times> nat) list \<Rightarrow> Family list \<times> (string \<rightharpoonup> string list)
     \<Rightarrow> Family list \<times> (string \<rightharpoonup> string list)" where
  "createFamilies d [] acc = acc"
| "createFamilies d ((rootId, index) # roots) (fams, familyMemberSets) =
     (case memberAt d rootId of
        None \<Rightarrow> createFamilies d roots (fams, familyMemberSets)
      | Some rootMember \<Rightarrow>
          createFamilies d roots
            (fams @ [\<lparr>fam_id = ''family_'' @ rootId, fam_name = getFamilyName rootMember,
                      color = generateFamilyColor index, rootMemberId = rootId,
                      memberCount = 0\<rparr>],
             familyMemberSets(''family_'' @ rootId \<mapsto> [])))"

text \<open>
  Steps 3 and 4: \<open>families.forEach\<close> with the member set looked up by family id, mutated
  by the step and, in the model, stored back.
\<close>

fun forEachFamily ::
  "(Family \<Rightarrow> string list \<Rightarrow> string list option) \<Rightarrow> Family list
     \<Rightarrow> (string \<rightharpoonup> string list) \<Rightarrow> (string \<rightharpoonup> string list) option" where
  "forEachFamily step [] familyMemberSets = Some familyMemberSets"
| "forEachFamily step (family # fams) familyMemberSets =
     (case familyMemberSets (fam_id family) of
        None \<Rightarrow> None
      | Some ms \<Rightarrow>
          (case step family ms of
             None \<Rightarrow> None
           | Some ms' \<Rightarrow> forEachFamily step fams (familyMemberSets(fam_id family \<mapsto> ms'))))"

text \<open>Step 5: member counts, and the family id pushed onto the list of each member.\<close>

definition pushFamily :: "string \<Rightarrow> string list \<Rightarrow> (string \<rightharpoonup> string list) \<Rightarrow> (string \<rightharpoonup> string list)" where
  "pushFamily familyId ms m2f0 =
     fold (\<lambda>memberId m2f.
             m2f(memberId \<mapsto> (case m2f memberId of None \<Rightarrow> [] | Some fs \<Rightarrow> fs) @ [familyId]))
          ms m2f0"

fun buildIndex ::
  "Family list \<Rightarrow> (string \<rightharpoonup> string list) \<Rightarrow> Family list \<times> (string \<rightharpoonup> string list)
     \<Rightarrow> (Family list \<times> (string \<rightharpoonup> string list)) option" where
  "buildIndex [] familyMemberSets acc = Some acc"
| "buildIndex (family # fams) familyMemberSets (built, m2f) =
     (case familyMemberSets (fam_id family) of
        None \<Rightarrow> None
      | Some ms \<Rightarrow>
          buildIndex fams familyMemberSets
            (built @ [family\<lparr>memberCount := length ms\<rparr>],
             pushFamily (fam_id family) ms m2f))"

definition colorMap :: "Family list \<Rightarrow> (string \<rightharpoonup> string)" where
  "colorMap fams = fold (\<lambda>family m. m(fam_id family \<mapsto> color family)) fams Map.empty"

definition detectFamilies :: "FamilyData \<Rightarrow> FamilyDetectionResult option" where
  "detectFamilies d =
     (let rootMemberIds = findRootNodes d in
      if rootMemberIds = [] then
        Some \<lparr>families = [], memberToFamilies = Map.empty, familyColors = Map.empty\<rparr>
      else
        (let (fams, sets0) =
               createFamilies d (zip rootMemberIds [0..<length rootMemberIds]) ([], Map.empty)
         in case forEachFamily (\<lambda>family ms. assignDescendants d (rootMemberId family) ms)
                   fams sets0 of
              None \<Rightarrow> None
            | Some sets1 \<Rightarrow>
                (case forEachFamily (\<lambda>family ms. Some (assignSpouses d ms)) fams sets1 of
                   None \<Rightarrow> None
                 | Some sets2 \<Rightarrow>
                     (case buildIndex fams sets2 ([], Map.empty) of
                        None \<Rightarrow> None
                      | Some (fams', m2f) \<Rightarrow>
                          Some \<lparr>families = fams', memberToFamilies = m2f,
                                familyColors = colorMap fams'\<rparr>))))"

text \<open>
  \<open>getDefaultActiveFamilies\<close>: the optional \<open>currentNodeId\<close> is truthy when it is given
  and not empty. The result is a \<open>Set\<close>, built from an array in order.
\<close>

definition newSet :: "'a list \<Rightarrow> 'a list" where
  "newSet xs = fold setAdd xs []"

definition getDefaultActiveFamilies ::
  "Family list \<Rightarrow> (string \<rightharpoonup> string list) \<Rightarrow> string option \<Rightarrow> string list" where
  "getDefaultActiveFamilies fams m2f currentNodeId =
     (if truthy currentNodeId \<and>
         (case m2f (the currentNodeId) of None \<Rightarrow> False | Some nodeFamilies \<Rightarrow> nodeFamilies \<noteq> [])
      then newSet (the (m2f (the currentNodeId)))
      else newSet (map fam_id fams))"

section \<open>The patrilineal copy of the module\<close>

text \<open>
  familyDetection.ts holds the module a second time (from its line 287 on), in a
  patrilineal variant. \<open>findRootNodes\<close>, \<open>getUnionsForMember\<close>, \<open>getChildrenOfUnion\<close>,
  \<open>parseUnionId\<close> and \<open>getFamilyName\<close> are the same text in both copies. The functions
  that differ carry the suffix \<open>P\<close> here where the source reuses the name.
\<close>

definition isPersonFatherInUnion :: "FamilyData \<Rightarrow> string \<Rightarrow> string list \<Rightarrow> bool" where
  "isPersonFatherInUnion d personId partners =
     (case memberAt d personId of
        None \<Rightarrow> False
      | Some person \<Rightarrow>
          if gender person = Some ''E'' then True
          else if gender person = Some ''K'' then False
          else if (case find (\<lambda>p. p \<noteq> personId) partners of
                     None \<Rightarrow> False
                   | Some partnerId \<Rightarrow>
                       partnerId \<noteq> [] \<and>
                       (case memberAt d partnerId of
                          None \<Rightarrow> False
                        | Some partner \<Rightarrow> gender partner = Some ''K''))
               then True
          else True)"

definition enqueueChildrenPatrilineal ::
  "FamilyData \<Rightarrow> string \<Rightarrow> string list \<Rightarrow> string list \<Rightarrow> string list \<Rightarrow> string list" where
  "enqueueChildrenPatrilineal d memberId visited unionIds queue =
     fold (\<lambda>unionId q.
             if isPersonFatherInUnion d memberId (parseUnionId unionId)
             then fold (\<lambda>childId q'. if childId \<notin> set visited then q' @ [childId] else q')
                       (getChildrenOfUnion d unionId) q
             else q)
          unionIds queue"

partial_function (option) assignDescendantsPatrilinealLoop ::
  "FamilyData \<Rightarrow> string \<Rightarrow> string list \<Rightarrow> string list \<Rightarrow> string list \<Rightarrow> string list
     \<Rightarrow> (string \<rightharpoonup> string) \<Rightarrow> (string list \<times> string list \<times> (string \<rightharpoonup> string)) option" where
  "assignDescendantsPatrilinealLoop d familyId queue visited processed familyMembers birth =
     (case queue of
        [] \<Rightarrow> Some (processed, familyMembers, birth)
      | memberId # rest \<Rightarrow>
          if memberId \<in> set visited
          then assignDescendantsPatrilinealLoop d familyId rest visited processed familyMembers birth
          else assignDescendantsPatrilinealLoop d familyId
                 (enqueueChildrenPatrilineal d memberId (setAdd memberId visited)
                    (getUnionsForMember d memberId) rest)
                 (setAdd memberId visited)
                 (processed @ [memberId])
                 (setAdd memberId familyMembers)
                 (if birth memberId = None then birth(memberId \<mapsto> familyId) else birth))"

declare assignDescendantsPatrilinealLoop.simps [code]

definition assignDescendantsPatrilinealTrace ::
  "FamilyData \<Rightarrow> string \<Rightarrow> string \<Rightarrow> string list \<Rightarrow> (string \<rightharpoonup> string)
     \<Rightarrow> (string list \<times> string list \<times> (string \<rightharpoonup> string)) option" where
  "assignDescendantsPatrilinealTrace d rootId familyId familyMembers birth =
     assignDescendantsPatrilinealLoop d familyId [rootId] [] [] familyMembers birth"

definition assignDescendantsPatrilineal ::
  "FamilyData \<Rightarrow> string \<Rightarrow> string \<Rightarrow> string list \<Rightarrow> (string \<rightharpoonup> string)
     \<Rightarrow> (string list \<times> (string \<rightharpoonup> string)) option" where
  "assignDescendantsPatrilineal d rootId familyId familyMembers birth =
     map_option snd (assignDescendantsPatrilinealTrace d rootId familyId familyMembers birth)"

text \<open>
  \<open>assignSpousesToFamilies\<close>: the state is the member set, \<open>memberBirthFamily\<close> and
  \<open>memberToFamilies\<close>. \<open>addSpouse\<close> is the body of the innermost \<open>forEach\<close>.
\<close>

definition addSpouse ::
  "FamilyData \<Rightarrow> string \<Rightarrow> string \<Rightarrow> string
     \<Rightarrow> string list \<times> (string \<rightharpoonup> string) \<times> (string \<rightharpoonup> string list)
     \<Rightarrow> string list \<times> (string \<rightharpoonup> string) \<times> (string \<rightharpoonup> string list)" where
  "addSpouse d familyId memberId partnerId st =
     (case st of (fm, birth, m2f) \<Rightarrow>
        if partnerId = memberId \<or> partnerId = ''0'' then st
        else if memberAt d partnerId = None then st
        else
          (let fm' = setAdd partnerId fm;
               birth' = (if birth partnerId = None then birth(partnerId \<mapsto> familyId) else birth);
               spouseFamilies = (case m2f partnerId of None \<Rightarrow> [] | Some fs \<Rightarrow> fs);
               withBirth =
                 (case birth' partnerId of
                    None \<Rightarrow> spouseFamilies
                  | Some birthFamilyId \<Rightarrow>
                      if birthFamilyId \<noteq> [] \<and> birthFamilyId \<notin> set spouseFamilies
                      then spouseFamilies @ [birthFamilyId] else spouseFamilies);
               withMarried =
                 (if familyId \<notin> set withBirth then withBirth @ [familyId] else withBirth)
           in (fm', birth', m2f(partnerId \<mapsto> withMarried))))"

definition assignSpousesToFamilies ::
  "FamilyData \<Rightarrow> string \<Rightarrow> string list \<Rightarrow> (string \<rightharpoonup> string) \<Rightarrow> (string \<rightharpoonup> string list)
     \<Rightarrow> string list \<times> (string \<rightharpoonup> string) \<times> (string \<rightharpoonup> string list)" where
  "assignSpousesToFamilies d familyId familyMembers birth m2f =
     fold (\<lambda>memberId st.
             fold (\<lambda>unionId st'.
                     fold (addSpouse d familyId memberId) (parseUnionId unionId) st')
                  (getUnionsForMember d memberId) st)
          familyMembers (familyMembers, birth, m2f)"

record FamilyDetectionResultP =
  familiesP :: "Family list"
  memberToFamiliesP :: "string \<rightharpoonup> string list"
  familyColorsP :: "string \<rightharpoonup> string"
  memberBirthFamily :: "string \<rightharpoonup> string"

fun assignAllPatrilineal ::
  "FamilyData \<Rightarrow> Family list \<Rightarrow> (string \<rightharpoonup> string list) \<Rightarrow> (string \<rightharpoonup> string)
     \<Rightarrow> ((string \<rightharpoonup> string list) \<times> (string \<rightharpoonup> string)) option" where
  "assignAllPatrilineal d [] familyMemberSets birth = Some (familyMemberSets, birth)"
| "assignAllPatrilineal d (family # fams) familyMemberSets birth =
     (case familyMemberSets (fam_id family) of
        None \<Rightarrow> None
      | Some ms \<Rightarrow>
          (case assignDescendantsPatrilineal d (rootMemberId family) (fam_id family) ms birth of
             None \<Rightarrow> None
           | Some (ms', birth') \<Rightarrow>
               assignAllPatrilineal d fams (familyMemberSets(fam_id family \<mapsto> ms')) birth'))"

fun assignAllSpouses ::
  "FamilyData \<Rightarrow> Family list \<Rightarrow> (string \<rightharpoonup> string list) \<Rightarrow> (string \<rightharpoonup> string)
     \<Rightarrow> (string \<rightharpoonup> string list)
     \<Rightarrow> ((string \<rightharpoonup> string list) \<times> (string \<rightharpoonup> string) \<times> (string \<rightharpoonup> string list)) option" where
  "assignAllSpouses d [] familyMemberSets birth m2f = Some (familyMemberSets, birth, m2f)"
| "assignAllSpouses d (family # fams) familyMemberSets birth m2f =
     (case familyMemberSets (fam_id family) of
        None \<Rightarrow> None
      | Some ms \<Rightarrow>
          (case assignSpousesToFamilies d (fam_id family) ms birth m2f of
             (ms', birth', m2f') \<Rightarrow>
               assignAllSpouses d fams (familyMemberSets(fam_id family \<mapsto> ms')) birth' m2f'))"

text \<open>
  Step 5 of the patrilineal copy: a member without an entry gets its birth family (when
  that is a non-empty string), or the empty list.
\<close>

definition completeMembers ::
  "(string \<rightharpoonup> string) \<Rightarrow> string list \<Rightarrow> (string \<rightharpoonup> string list) \<Rightarrow> (string \<rightharpoonup> string list)" where
  "completeMembers birth ms m2f0 =
     fold (\<lambda>memberId m2f.
             if m2f memberId = None
             then m2f(memberId \<mapsto> (if truthy (birth memberId) then [the (birth memberId)] else []))
             else m2f)
          ms m2f0"

fun completeIndex ::
  "Family list \<Rightarrow> (string \<rightharpoonup> string list) \<Rightarrow> (string \<rightharpoonup> string)
     \<Rightarrow> Family list \<times> (string \<rightharpoonup> string list)
     \<Rightarrow> (Family list \<times> (string \<rightharpoonup> string list)) option" where
  "completeIndex [] familyMemberSets birth acc = Some acc"
| "completeIndex (family # fams) familyMemberSets birth (built, m2f) =
     (case familyMemberSets (fam_id family) of
        None \<Rightarrow> None
      | Some ms \<Rightarrow>
          completeIndex fams familyMemberSets birth
            (built @ [family\<lparr>memberCount := length ms\<rparr>], completeMembers birth ms m2f))"

definition detectFamiliesP :: "FamilyData \<Rightarrow> FamilyDetectionResultP option" where
  "detectFamiliesP d =
     (let rootMemberIds = findRootNodes d in
      if rootMemberIds = [] then
        Some \<lparr>familiesP = [], memberToFamiliesP = Map.empty, familyColorsP = Map.empty,
               memberBirthFamily = Map.empty\<rparr>
      else
        (let (fams, sets0) =
               createFamilies d (zip rootMemberIds [0..<length rootMemberIds]) ([], Map.empty)
         in case assignAllPatrilineal d fams sets0 Map.empty of
              None \<Rightarrow> None
            | Some (sets1, birth1) \<Rightarrow>
                (case assignAllSpouses d fams sets1 birth1 Map.empty of
                   None \<Rightarrow> None
                 | Some (sets2, birth2, m2f2) \<Rightarrow>
                     (case completeIndex fams sets2 birth2 ([], m2f2) of
                        None \<Rightarrow> None
                      | Some (fams', m2f) \<Rightarrow>
                          Some \<lparr>familiesP = fams', memberToFamiliesP = m2f,
                                familyColorsP = colorMap fams', memberBirthFamily = birth2\<rparr>))))"

definition getDefaultActiveFamiliesP ::
  "Family list \<Rightarrow> (string \<rightharpoonup> string) \<Rightarrow> string option \<Rightarrow> string list" where
  "getDefaultActiveFamiliesP fams birth currentNodeId =
     (if truthy currentNodeId \<and> truthy (birth (the currentNodeId))
      then newSet [the (birth (the currentNodeId))]
      else if fams \<noteq> [] then newSet [fam_id (hd fams)]
      else newSet [])"

section \<open>Scenarios of the repository's tests\<close>

text \<open>
  The test data of tests/familyDetection.test.ts: a member with the given last name and
  gender, not flagged as a spouse.
\<close>

definition person :: "string \<Rightarrow> string \<Rightarrow> string \<Rightarrow> Member" where
  "person nm surname g =
     \<lparr>name = Some nm, first_name = Some nm, last_name = Some surname, is_spouse = False,
      gender = Some g\<rparr>"

text \<open>
  "Families connected by marriage": root Y (\<open>mem_1\<close>) with child B (\<open>mem_2\<close>), root A
  (\<open>mem_3\<close>) with child C (\<open>mem_4\<close>), and the union of B and C with child D
  (\<open>mem_5\<close>).
\<close>

definition intermarriage :: FamilyData where
  "intermarriage =
     \<lparr>start = ''mem_1'',
      members = [(''mem_1'', person ''Family Y Root'' ''Y'' ''E''),
                 (''mem_2'', person ''B'' ''Y'' ''E''),
                 (''mem_3'', person ''Family A Root'' ''A'' ''E''),
                 (''mem_4'', person ''C'' ''A'' ''K''),
                 (''mem_5'', person ''D'' ''BC'' ''E'')],
      links = [(''mem_1'', ''u_1_0''), (''u_1_0'', ''mem_2''),
               (''mem_3'', ''u_3_0''), (''u_3_0'', ''mem_4''),
               (''mem_2'', ''u_2_4''), (''mem_4'', ''u_2_4''), (''u_2_4'', ''mem_5'')]\<rparr>"

text \<open>"Circular prevention": the union of A has child B and the union of B has child A.\<close>

definition circular :: FamilyData where
  "circular =
     \<lparr>start = ''mem_1'',
      members = [(''mem_1'', person ''Person A'' ''Test'' ''E''),
                 (''mem_2'', person ''Person B'' ''Test'' ''E'')],
      links = [(''mem_1'', ''u_1_0''), (''u_1_0'', ''mem_2''),
               (''mem_2'', ''u_2_0''), (''u_2_0'', ''mem_1'')]\<rparr>"

text \<open>
  A person linked to a union whose id does not name them: \<open>mem_2\<close> has an edge to
  \<open>u_1_3\<close>.
\<close>

definition misnamedUnion :: FamilyData where
  "misnamedUnion =
     \<lparr>start = ''mem_1'',
      members = [(''mem_1'', person ''P1'' ''T'' ''E''),
                 (''mem_2'', person ''P2'' ''T'' ''K''),
                 (''mem_3'', person ''P3'' ''T'' ''K'')],
      links = [(''mem_1'', ''u_1_3''), (''mem_2'', ''u_1_3'')]\<rparr>"

text \<open>
  A single parent with the placeholder partner: the union of \<open>mem_1\<close> is \<open>u_1_0\<close>, as
  the database service names the union of a parent without a partner, and the member
  table has a member \<open>mem_0\<close>.
\<close>

definition placeholderPartner :: FamilyData where
  "placeholderPartner =
     \<lparr>start = ''mem_1'',
      members = [(''mem_0'', person ''P0'' ''Other'' ''K''),
                 (''mem_1'', person ''P1'' ''T'' ''E''),
                 (''mem_2'', person ''P2'' ''T'' ''E'')],
      links = [(''mem_1'', ''u_1_0''), (''u_1_0'', ''mem_2'')]\<rparr>"

text \<open>The families of the tests of \<open>getDefaultActiveFamilies\<close>.\<close>

definition familyA :: Family where
  "familyA = \<lparr>fam_id = ''family_mem_1'', fam_name = ''Family A'', color = ''#8B5CF6'',
               rootMemberId = ''mem_1'', memberCount = 5\<rparr>"

definition familyB :: Family where
  "familyB = \<lparr>fam_id = ''family_mem_3'', fam_name = ''Family B'', color = ''#10B981'',
               rootMemberId = ''mem_3'', memberCount = 8\<rparr>"

section \<open>Relaxation engine\<close>

text \<open>
  The source of the relaxation engine (class \<open>DagRelaxation\<close>, imported by its test from
  src/components/Tree/dagRelaxation) is not among the source files; only the test is.
  The engine is therefore modelled from the specification. Coordinates are exact reals.
  The node array is a list of nodes; the mutable horizontal coordinates are kept in a
  store that maps an array index to the current x of the node at that index, and written
  back to the list at the end of an operation.
\<close>

text \<open>
  Modelled from the spec: the node of the data model (identifier, mutable horizontal
  coordinate, fixed vertical coordinate); the test builds it with the fields \<open>data\<close>,
  \<open>x\<close> and \<open>y\<close>.
\<close>

record D3Node =
  node_data :: string
  node_x :: real
  node_y :: real

text \<open>
  Modelled from the spec: the graph, with its \<open>parents\<close> lookup and the \<open>children\<close>
  accessor of a node, as adjacency lists of identifiers resolved through the node array.
\<close>

record DagWithFamilyData =
  dag_parents :: "string \<Rightarrow> string list"
  dag_children :: "string \<Rightarrow> string list"

text \<open>
  Modelled from the spec: the engine stores the graph and the node footprint
  \<open>[width, height]\<close>; the number of passes and the damping of pressure and of gravity
  are tunable constants of the absent source and are parameters here.
\<close>

record DagRelaxation =
  dag :: DagWithFamilyData
  node_size :: "real \<times> real"
  passes :: nat
  pressure_damping :: real
  gravity_damping :: real

text \<open>
  Modelled from the spec: the minimum spacing between the centres of two nodes of a
  level is the node size, taken to be the width of the footprint.
\<close>

definition minSpacing :: "DagRelaxation \<Rightarrow> real" where
  "minSpacing r = fst (node_size r)"

text \<open>
  Modelled from the spec: \<open>get_pressure\<close>, the signed overlap of two nodes along the
  horizontal axis, here on the two coordinates. The gap is the distance of the centres;
  with a gap of at least the minimum spacing the result is 0, and otherwise its magnitude
  is \<open>minSpacing - gap\<close>. The direction is the one the assertions of the test of the
  absent source fix (\<open>get_pressure\<close> of a node at 50 and a node at 0 with size 100 is
  \<open>-50\<close>, and of a node at 0 and a node at 50 it is \<open>50\<close>), which is the opposite of
  the sign convention the spec words for \<open>pressure(node, neighbor, minSpacing)\<close>: the
  result is negative when the first argument is to the right of the second and positive
  when it is to the left. Neither says what two nodes at the same x give; the model
  returns 0 there.
\<close>

definition pressure :: "real \<Rightarrow> real \<Rightarrow> real \<Rightarrow> real" where
  "pressure ax bx spacing =
     (let gap = \<bar>bx - ax\<bar> in
      if spacing \<le> gap then 0
      else if bx < ax then - (spacing - gap)
      else if ax < bx then spacing - gap
      else 0)"

text \<open>Modelled from the spec: \<open>get_pressure\<close> is \<open>pressure\<close> on two nodes.\<close>

definition get_pressure :: "D3Node \<Rightarrow> D3Node \<Rightarrow> real \<Rightarrow> real" where
  "get_pressure a b spacing = pressure (node_x a) (node_x b) spacing"

text \<open>
  Modelled from the spec: \<open>get_gravity\<close>, the difference of the two horizontal
  coordinates. The order of the arguments is the one the assertions of the test of the
  absent source fix (\<open>get_gravity\<close> of a node at 100 and a node at 0 is \<open>100\<close>): the
  result is the x of the first argument minus the x of the second, so it is the pull the
  spec describes, \<open>neighbor.x - node.x\<close>, when the neighbour is the first argument.
\<close>

definition get_gravity :: "D3Node \<Rightarrow> D3Node \<Rightarrow> real" where
  "get_gravity a b = node_x a - node_x b"

text \<open>
  Modelled from the spec: the store of the current x of every array index, and the
  write-back of a store into the node list.
\<close>

definition xs_of :: "D3Node list \<Rightarrow> nat \<Rightarrow> real" where
  "xs_of ns = (\<lambda>i. node_x (ns ! i))"

definition writeBack :: "D3Node list \<Rightarrow> (nat \<Rightarrow> real) \<Rightarrow> D3Node list" where
  "writeBack ns X = map (\<lambda>i. (ns ! i)\<lparr>node_x := X i\<rparr>) [0..<length ns]"

text \<open>
  Modelled from the spec: a level is the group of the nodes that share a vertical
  coordinate. \<open>levels\<close> lists the vertical coordinates that occur, \<open>levelIndices\<close> the
  array indices of the nodes of a level, and \<open>sortedLevel\<close> orders them left to right by
  their current x (stably).
\<close>

definition levels :: "D3Node list \<Rightarrow> real list" where
  "levels ns = remdups (map node_y ns)"

definition levelIndices :: "D3Node list \<Rightarrow> real \<Rightarrow> nat list" where
  "levelIndices ns lv = filter (\<lambda>i. node_y (ns ! i) = lv) [0..<length ns]"

definition sortedLevel :: "D3Node list \<Rightarrow> (nat \<Rightarrow> real) \<Rightarrow> real \<Rightarrow> nat list" where
  "sortedLevel ns X lv = sort_key X (levelIndices ns lv)"

text \<open>
  Modelled from the spec: the sweep of \<open>enforcePlacement\<close> over one level in ascending
  x order. Each node is forced to be at least the minimum spacing to the right of the
  node before it and is never moved backward; the first node of a level is not moved.
\<close>

fun sweep :: "real \<Rightarrow> real \<Rightarrow> nat list \<Rightarrow> (nat \<Rightarrow> real) \<Rightarrow> (nat \<Rightarrow> real)" where
  "sweep s prev [] X = X"
| "sweep s prev (i # rest) X = sweep s (max (X i) (prev + s)) rest (X(i := max (X i) (prev + s)))"

fun place :: "real \<Rightarrow> nat list \<Rightarrow> (nat \<Rightarrow> real) \<Rightarrow> (nat \<Rightarrow> real)" where
  "place s [] X = X"
| "place s (i # rest) X = sweep s (X i) rest X"

text \<open>
  Modelled from the spec: \<open>enforcePlacement\<close> sweeps every level, in ascending current
  x order within the level.
\<close>

definition placeLevel :: "real \<Rightarrow> D3Node list \<Rightarrow> real \<Rightarrow> (nat \<Rightarrow> real) \<Rightarrow> (nat \<Rightarrow> real)" where
  "placeLevel s ns lv X = place s (sortedLevel ns X lv) X"

definition enforceStore :: "real \<Rightarrow> D3Node list \<Rightarrow> (nat \<Rightarrow> real) \<Rightarrow> (nat \<Rightarrow> real)" where
  "enforceStore s ns X = fold (placeLevel s ns) (levels ns) X"

definition enforce_placement :: "DagRelaxation \<Rightarrow> D3Node list \<Rightarrow> D3Node list" where
  "enforce_placement r ns = writeBack ns (enforceStore (minSpacing r) ns (xs_of ns))"

text \<open>
  Modelled from the spec: step (1) of a pass, the pressure on the node at position \<open>k\<close>
  of the sorted level from its immediate left and right neighbours. The neighbour is the
  first argument of \<open>pressure\<close> and the node the second, which gives the push the spec
  describes: a neighbour to the right pushes the node to the left, and a neighbour to the
  left pushes it to the right.
\<close>

definition neighborPressure :: "real \<Rightarrow> nat list \<Rightarrow> nat \<Rightarrow> (nat \<Rightarrow> real) \<Rightarrow> real" where
  "neighborPressure s order k X =
     (if 0 < k then pressure (X (order ! (k - 1))) (X (order ! k)) s else 0)
     + (if Suc k < length order then pressure (X (order ! Suc k)) (X (order ! k)) s else 0)"

text \<open>
  Modelled from the spec: the nodes a node is structurally connected to, its parents
  and its children, resolved through the node array; an identifier that names no node
  of the array gives no contribution.
\<close>

definition resolve :: "D3Node list \<Rightarrow> string \<Rightarrow> nat option" where
  "resolve ns ident =
     (case filter (\<lambda>j. node_data (ns ! j) = ident) [0..<length ns] of
        [] \<Rightarrow> None
      | j # _ \<Rightarrow> Some j)"

definition connected :: "DagWithFamilyData \<Rightarrow> D3Node list \<Rightarrow> nat \<Rightarrow> nat list" where
  "connected g ns i =
     List.map_filter (resolve ns)
       (dag_parents g (node_data (ns ! i)) @ dag_children g (node_data (ns ! i)))"

text \<open>
  Modelled from the spec: step (2) of a pass, the gravity toward the average x of the
  connected nodes, which is the average of the pull \<open>neighbor.x - node.x\<close> toward each
  of them.
\<close>

definition centroidGravity :: "nat list \<Rightarrow> nat \<Rightarrow> (nat \<Rightarrow> real) \<Rightarrow> real" where
  "centroidGravity cs i X =
     (if cs = [] then 0 else sum_list (map (\<lambda>j. X j - X i) cs) / real (length cs))"

text \<open>
  Modelled from the spec: step (3) of a pass, the damped combination of pressure and
  gravity added to the x of the node.
\<close>

definition relaxNode ::
  "DagRelaxation \<Rightarrow> D3Node list \<Rightarrow> nat list \<Rightarrow> nat \<Rightarrow> (nat \<Rightarrow> real) \<Rightarrow> (nat \<Rightarrow> real)" where
  "relaxNode r ns order k X =
     X(order ! k :=
         X (order ! k)
         + pressure_damping r * neighborPressure (minSpacing r) order k X
         + gravity_damping r * centroidGravity (connected (dag r) ns (order ! k)) (order ! k) X)"

text \<open>
  Modelled from the spec: one pass over a level visits every node of the level in the
  sorted order taken at the start of the pass; a level is relaxed by the fixed number of
  passes.
\<close>

definition relaxPass :: "DagRelaxation \<Rightarrow> D3Node list \<Rightarrow> real \<Rightarrow> (nat \<Rightarrow> real) \<Rightarrow> (nat \<Rightarrow> real)" where
  "relaxPass r ns lv X =
     fold (relaxNode r ns (sortedLevel ns X lv)) [0..<length (sortedLevel ns X lv)] X"

definition relaxLevel :: "DagRelaxation \<Rightarrow> D3Node list \<Rightarrow> real \<Rightarrow> (nat \<Rightarrow> real) \<Rightarrow> (nat \<Rightarrow> real)" where
  "relaxLevel r ns lv X = (relaxPass r ns lv ^^ passes r) X"

text \<open>
  Modelled from the spec: \<open>run\<close> relaxes every level and then invokes
  \<open>enforcePlacement\<close> once over the full node set.
\<close>

definition run :: "DagRelaxation \<Rightarrow> D3Node list \<Rightarrow> D3Node list" where
  "run r ns =
     writeBack ns
       (enforceStore (minSpacing r) ns (fold (relaxLevel r ns) (levels ns) (xs_of ns)))"

text \<open>
  The non-overlap invariant: \<open>spaced s xs\<close> holds when every two adjacent elements of
  \<open>xs\<close> are at least \<open>s\<close> apart, and \<open>nonOverlap s ns\<close> when this holds, in every level,
  for the x coordinates of the level in ascending order.
\<close>

fun spaced :: "real \<Rightarrow> real list \<Rightarrow> bool" where
  "spaced s [] = True"
| "spaced s [a] = True"
| "spaced s (a # b # rest) = (s \<le> b - a \<and> spaced s (b # rest))"

definition levelXs :: "D3Node list \<Rightarrow> real \<Rightarrow> real list" where
  "levelXs ns lv = sort (map node_x (filter (\<lambda>n. node_y n = lv) ns))"

definition nonOverlap :: "real \<Rightarrow> D3Node list \<Rightarrow> bool" where
  "nonOverlap s ns = (\<forall>lv \<in> set (levels ns). spaced s (levelXs ns lv))"

text \<open>Shifting every x of a node list by a constant.\<close>

definition shiftNodes :: "real \<Rightarrow> D3Node list \<Rightarrow> D3Node list" where
  "shiftNodes c ns = map (\<lambda>n. n\<lparr>node_x := node_x n + c\<rparr>) ns"

text \<open>A mock node and the mock graph of the test (no parents, no children).\<close>

definition createMockNode :: "string \<Rightarrow> real \<Rightarrow> real \<Rightarrow> D3Node" where
  "createMockNode ident xv yv = \<lparr>node_data = ident, node_x = xv, node_y = yv\<rparr>"

definition mockDag :: DagWithFamilyData where
  "mockDag = \<lparr>dag_parents = (\<lambda>_. []), dag_children = (\<lambda>_. [])\<rparr>"

text \<open>
  The sweep on the list of the x values of a level, taken in sweep order: what \<open>sweep\<close>
  and \<open>place\<close> write into the store, as a list.
\<close>

fun sweepVals :: "real \<Rightarrow> real \<Rightarrow> real list \<Rightarrow> real list" where
  "sweepVals s p [] = []"
| "sweepVals s p (v # vs) = max v (p + s) # sweepVals s (max v (p + s)) vs"

fun placeVals :: "real \<Rightarrow> real list \<Rightarrow> real list" where
  "placeVals s [] = []"
| "placeVals s (v # vs) = v # sweepVals s v vs"

text \<open>
  The engine and the node lists of the test of the engine: three nodes of one level
  that are too close, and three that are well spaced. The engine makes one pass and
  damps pressure and gravity by one half.
\<close>

definition testEngine :: DagRelaxation where
  "testEngine = \<lparr>dag = mockDag, node_size = (100, 100), passes = 1,
                 pressure_damping = 1 / 2, gravity_damping = 1 / 2\<rparr>"

definition crowded :: "D3Node list" where
  "crowded = [createMockNode ''mem_0'' 0 0, createMockNode ''mem_1'' 10 0,
              createMockNode ''mem_2'' 20 0]"

definition tooClose :: "D3Node list" where
  "tooClose = [createMockNode ''mem_0'' 0 0, createMockNode ''mem_1'' 50 0,
               createMockNode ''mem_2'' 100 0]"

definition wellSpaced :: "D3Node list" where
  "wellSpaced = [createMockNode ''mem_0'' 0 0, createMockNode ''mem_1'' 150 0,
                 createMockNode ''mem_2'' 300 0]"

section \<open>Properties of root discovery\<close>

lemma set_childrenSet_fold:
  "set (fold (\<lambda>(from, to) cs.
             if startsWith from ''u_'' \<and> \<not> startsWith to ''u_'' then setAdd to cs else cs) ls acc)
   = set acc \<union> {to. \<exists>from. (from, to) \<in> set ls \<and> startsWith from ''u_'' \<and> \<not> startsWith to ''u_''}"
  by (induction ls arbitrary: acc) (auto simp: setAdd_def split: if_splits)

lemma set_childrenSet:
  "set (childrenSet d) =
     {to. \<exists>from. (from, to) \<in> set (links d) \<and> startsWith from ''u_'' \<and> \<not> startsWith to ''u_''}"
  by (simp add: childrenSet_def set_childrenSet_fold)

lemma memberAt_own: "k \<in> fst ` set (members d) \<Longrightarrow> memberAt d k = map_of (members d) k"
  by (auto simp: memberAt_def map_of_eq_None_iff split: option.splits)

lemma memberAt_None_iff:
  "memberAt d k = None \<longleftrightarrow> k \<notin> fst ` set (members d) \<and> k \<notin> fst ` set objectPrototype"
proof (cases "map_of (members d) k")
  case None
  then have "k \<notin> fst ` set (members d)" by (simp add: map_of_eq_None_iff)
  moreover have "memberAt d k = map_of objectPrototype k" by (simp add: memberAt_def None)
  ultimately show ?thesis by (simp add: map_of_eq_None_iff)
next
  case (Some m)
  then have "k \<in> fst ` set (members d)"
    using map_of_eq_None_iff [of "members d" k] by auto
  with Some show ?thesis by (simp add: memberAt_def)
qed

lemma naturalRoots_fold:
  "fold (\<lambda>memberId roots.
             case look memberId of
               None \<Rightarrow> roots
             | Some member \<Rightarrow>
                 if memberId \<notin> C \<and> \<not> is_spouse member
                 then roots @ [memberId] else roots) ks acc
   = acc @ filter (\<lambda>k. \<exists>m. look k = Some m \<and> k \<notin> C \<and> \<not> is_spouse m) ks"
  by (induction ks arbitrary: acc) (auto split: option.splits)

lemma naturalRoots_filter:
  "naturalRoots d =
     filter (\<lambda>k. \<exists>m. memberAt d k = Some m \<and> k \<notin> set (childrenSet d) \<and> \<not> is_spouse m)
            (map fst (members d))"
  by (simp add: naturalRoots_def naturalRoots_fold)

lemma childrenSet_iff:
  "k \<in> set (childrenSet d) \<longleftrightarrow>
     (\<exists>from. (from, k) \<in> set (links d) \<and> startsWith from ''u_'' \<and> \<not> startsWith k ''u_'')"
  by (simp add: set_childrenSet)

text \<open>
  Claim C4, as amended. The natural roots are, in the order of \<open>Object.keys\<close>, exactly
  the member ids that are not the target of a link from a \<open>u_\<close> node to a non-\<open>u_\<close>
  node and whose member is not flagged \<open>is_spouse\<close>. \<open>findRootNodes\<close> returns them,
  except that when there is none and the member table is not empty it returns the start
  id alone, provided the start id is a non-empty string and \<open>data.members[data.start]\<close>
  is truthy, that is, the start id is a key of the member table or a property name the
  table inherits as a plain object; when that guard fails it returns no root. There is
  no failing branch.
\<close>

theorem findRootNodes_characterisation:
  "naturalRoots d =
     filter (\<lambda>k. \<not> (\<exists>from. (from, k) \<in> set (links d) \<and> startsWith from ''u_'' \<and> \<not> startsWith k ''u_'')
                 \<and> (\<exists>m. map_of (members d) k = Some m \<and> \<not> is_spouse m))
            (map fst (members d))
   \<and> findRootNodes d =
       (if naturalRoots d = [] \<and> members d \<noteq> [] \<and> start d \<noteq> []
           \<and> (start d \<in> fst ` set (members d) \<or> start d \<in> fst ` set objectPrototype)
        then [start d] else naturalRoots d)"
proof
  show "naturalRoots d =
     filter (\<lambda>k. \<not> (\<exists>from. (from, k) \<in> set (links d) \<and> startsWith from ''u_'' \<and> \<not> startsWith k ''u_'')
                 \<and> (\<exists>m. map_of (members d) k = Some m \<and> \<not> is_spouse m))
            (map fst (members d))"
    unfolding naturalRoots_filter childrenSet_iff
    by (rule filter_cong) (auto simp: memberAt_own)
next
  show "findRootNodes d =
       (if naturalRoots d = [] \<and> members d \<noteq> [] \<and> start d \<noteq> []
           \<and> (start d \<in> fst ` set (members d) \<or> start d \<in> fst ` set objectPrototype)
        then [start d] else naturalRoots d)"
    using memberAt_None_iff [of d "start d"]
    by (auto simp: findRootNodes_def Let_def)
qed

text \<open>
  Two instances in which the only member is flagged as a spouse, so that there is no
  natural root: in the first the start id names that member, in the second it is
  \<open>constructor\<close>, which names no member and is inherited from \<open>Object.prototype\<close>.
\<close>

theorem findRootNodes_characterisation_witness:
  "naturalRoots \<lparr>start = ''mem_1'',
       members = [(''mem_1'', \<lparr>name = None, first_name = None, last_name = None,
                               is_spouse = True, gender = None\<rparr>)],
       links = []\<rparr> = []
   \<and> findRootNodes \<lparr>start = ''mem_1'',
       members = [(''mem_1'', \<lparr>name = None, first_name = None, last_name = None,
                               is_spouse = True, gender = None\<rparr>)],
       links = []\<rparr> = [''mem_1'']
   \<and> findRootNodes \<lparr>start = ''constructor'',
       members = [(''mem_1'', \<lparr>name = None, first_name = None, last_name = None,
                               is_spouse = True, gender = None\<rparr>)],
       links = []\<rparr> = [''constructor'']"
  using findRootNodes_characterisation
    [of "\<lparr>start = ''mem_1'',
       members = [(''mem_1'', \<lparr>name = None, first_name = None, last_name = None,
                               is_spouse = True, gender = None\<rparr>)],
       links = []\<rparr>"]
    findRootNodes_characterisation
    [of "\<lparr>start = ''constructor'',
       members = [(''mem_1'', \<lparr>name = None, first_name = None, last_name = None,
                               is_spouse = True, gender = None\<rparr>)],
       links = []\<rparr>"]
  by (simp add: objectPrototype_def)

text \<open>
  Claim C4 as stated fails where the lookup of the start id is \<open>undefined\<close>: there is no
  natural root, the member table is not empty, and yet the start person is not returned
  as the root.
\<close>

theorem findRootNodes_fallback_counterexample:
  "naturalRoots \<lparr>start = ''mem_9'',
       members = [(''mem_1'', \<lparr>name = None, first_name = None, last_name = None,
                               is_spouse = True, gender = None\<rparr>)],
       links = []\<rparr> = []
   \<and> members \<lparr>start = ''mem_9'',
       members = [(''mem_1'', \<lparr>name = None, first_name = None, last_name = None,
                               is_spouse = True, gender = None\<rparr>)],
       links = []\<rparr> \<noteq> []
   \<and> findRootNodes \<lparr>start = ''mem_9'',
       members = [(''mem_1'', \<lparr>name = None, first_name = None, last_name = None,
                               is_spouse = True, gender = None\<rparr>)],
       links = []\<rparr> \<noteq> [''mem_9'']"
  by (simp add: findRootNodes_def naturalRoots_def childrenSet_def Let_def memberAt_def
        objectPrototype_def)

section \<open>The traversal loops return\<close>

lemma pushChildren_filter:
  "fold (\<lambda>childId q'. if childId \<notin> V then q' @ [childId] else q') cs q
     = q @ filter (\<lambda>childId. childId \<notin> V) cs"
  by (induction cs arbitrary: q) auto

lemma set_getChildrenOfUnion: "set (getChildrenOfUnion d u) \<subseteq> snd ` set (links d)"
  by (auto simp: getChildrenOfUnion_def)

lemma set_enqueueChildren:
  "set (enqueueChildren d vis us q) \<subseteq> set q \<union> snd ` set (links d)"
  unfolding enqueueChildren_def
proof (induction us arbitrary: q)
  case Nil
  then show ?case by simp
next
  case (Cons u us)
  have "set (fold (\<lambda>childId q'. if childId \<notin> set vis then q' @ [childId] else q')
               (getChildrenOfUnion d u) q) \<subseteq> set q \<union> snd ` set (links d)"
    using set_getChildrenOfUnion [of d u] by (auto simp: pushChildren_filter)
  with Cons.IH show ?case by fastforce
qed

lemma measure_skip:
  "finite T \<Longrightarrow> card ((set rest \<union> T) - set vis) \<le> card ((set (m # rest) \<union> T) - set vis)"
  by (intro card_mono) auto

lemma measure_visit:
  assumes "m \<notin> set vis" and "set q' \<subseteq> set rest \<union> T" and "finite T"
  shows "card ((set q' \<union> T) - set (setAdd m vis)) < card ((set (m # rest) \<union> T) - set vis)"
proof -
  have sub: "(set q' \<union> T) - set (setAdd m vis) \<subseteq> ((set (m # rest) \<union> T) - set vis) - {m}"
    using assms(2) by (auto simp: setAdd_def)
  have "m \<in> (set (m # rest) \<union> T) - set vis" using assms(1) by simp
  then have "card (((set (m # rest) \<union> T) - set vis) - {m}) < card ((set (m # rest) \<union> T) - set vis)"
    using assms(3) by (intro card_Diff1_less) auto
  moreover have "card ((set q' \<union> T) - set (setAdd m vis)) \<le> card (((set (m # rest) \<union> T) - set vis) - {m})"
    using sub assms(3) by (intro card_mono) auto
  ultimately show ?thesis by linarith
qed

lemma assignDescendantsLoop_returns:
  "card ((set q \<union> snd ` set (links d)) - set vis) \<le> n
   \<Longrightarrow> \<exists>new fm'. assignDescendantsLoop d q vis pr fm = Some (pr @ new, fm')
         \<and> distinct new \<and> set new \<inter> set vis = {} \<and> set fm' = set fm \<union> set new"
proof (induction n arbitrary: q vis pr fm)
  case 0
  then show ?case
  proof (induction q arbitrary: pr fm)
    case Nil
    then show ?case by (simp add: assignDescendantsLoop.simps)
  next
    case (Cons m rest)
    from Cons.prems have "(set (m # rest) \<union> snd ` set (links d)) - set vis = {}" by simp
    then have mv: "m \<in> set vis" and "(set rest \<union> snd ` set (links d)) - set vis = {}" by auto
    then have "card ((set rest \<union> snd ` set (links d)) - set vis) \<le> 0" by simp
    from Cons.IH [OF this] mv show ?case
      by (subst assignDescendantsLoop.simps) simp
  qed
next
  case (Suc n)
  then show ?case
  proof (induction q arbitrary: pr fm)
    case Nil
    then show ?case by (simp add: assignDescendantsLoop.simps)
  next
    case (Cons m rest)
    let ?T = "snd ` set (links d)"
    show ?case
    proof (cases "m \<in> set vis")
      case True
      have "card ((set rest \<union> ?T) - set vis) \<le> Suc n"
        using measure_skip [of ?T rest vis m] Cons.prems(2) by simp
      from Cons.IH [OF Cons.prems(1) this] True show ?thesis
        by (subst assignDescendantsLoop.simps) simp
    next
      case False
      let ?q = "enqueueChildren d (setAdd m vis) (getUnionsForMember d m) rest"
      have "card ((set ?q \<union> ?T) - set (setAdd m vis)) < card ((set (m # rest) \<union> ?T) - set vis)"
        using False set_enqueueChildren by (intro measure_visit) auto
      then have "card ((set ?q \<union> ?T) - set (setAdd m vis)) \<le> n"
        using Cons.prems(2) by linarith
      from Cons.prems(1) [OF this, of "pr @ [m]" "setAdd m fm"]
      obtain new fm' where
        run: "assignDescendantsLoop d ?q (setAdd m vis) (pr @ [m]) (setAdd m fm) = Some ((pr @ [m]) @ new, fm')"
        and new: "distinct new" "set new \<inter> set (setAdd m vis) = {}" "set fm' = set (setAdd m fm) \<union> set new"
        by blast
      have "assignDescendantsLoop d (m # rest) vis pr fm = Some (pr @ (m # new), fm')"
        using False run by (subst assignDescendantsLoop.simps) simp
      moreover have "distinct (m # new)" "set (m # new) \<inter> set vis = {}" "set fm' = set fm \<union> set (m # new)"
        using new False by (auto simp: setAdd_def split: if_splits)
      ultimately show ?thesis by blast
    qed
  qed
qed

lemma assignDescendants_returns: "\<exists>ms. assignDescendants d rootId fm = Some ms"
  using assignDescendantsLoop_returns [of "[rootId]" d "[]" _ "[]" fm, OF order_refl]
  by (auto simp: assignDescendants_def assignDescendantsTrace_def)

lemma createFamilies_dom:
  "createFamilies d rs (fams, sets) = (fams', sets')
   \<Longrightarrow> fam_id ` set fams \<subseteq> dom sets \<Longrightarrow> fam_id ` set fams' \<subseteq> dom sets'"
proof (induction rs arbitrary: fams sets)
  case Nil
  then show ?case by simp
next
  case (Cons r rs)
  obtain rootId index where r: "r = (rootId, index)" by (cases r)
  show ?case
  proof (cases "memberAt d rootId")
    case None
    with Cons r show ?thesis by simp
  next
    case (Some rootMember)
    with Cons.prems(1) r have
      "createFamilies d rs
         (fams @ [\<lparr>fam_id = ''family_'' @ rootId, fam_name = getFamilyName rootMember,
                   color = generateFamilyColor index, rootMemberId = rootId, memberCount = 0\<rparr>],
          sets(''family_'' @ rootId \<mapsto> [])) = (fams', sets')"
      by simp
    moreover have "fam_id ` set (fams @ [\<lparr>fam_id = ''family_'' @ rootId, fam_name = getFamilyName rootMember,
                   color = generateFamilyColor index, rootMemberId = rootId, memberCount = 0\<rparr>])
           \<subseteq> dom (sets(''family_'' @ rootId \<mapsto> []))"
      using Cons.prems(2) by auto
    ultimately show ?thesis by (rule Cons.IH)
  qed
qed

lemma forEachFamily_returns:
  assumes "\<And>family ms. \<exists>ms'. step family ms = Some ms'"
  shows "fam_id ` set fams \<subseteq> dom sets
     \<Longrightarrow> \<exists>sets'. forEachFamily step fams sets = Some sets' \<and> dom sets' = dom sets"
proof (induction fams arbitrary: sets)
  case Nil
  then show ?case by simp
next
  case (Cons family fams)
  from Cons.prems obtain ms where ms: "sets (fam_id family) = Some ms" by auto
  from assms obtain ms' where ms': "step family ms = Some ms'" by blast
  have d: "dom (sets(fam_id family \<mapsto> ms')) = dom sets" using ms by auto
  with Cons.prems have "fam_id ` set fams \<subseteq> dom (sets(fam_id family \<mapsto> ms'))" by auto
  from Cons.IH [OF this] obtain sets' where
    run: "forEachFamily step fams (sets(fam_id family \<mapsto> ms')) = Some sets'"
    and "dom sets' = dom (sets(fam_id family \<mapsto> ms'))" by blast
  then have "dom sets' = dom sets" using d by simp
  moreover have "forEachFamily step (family # fams) sets = Some sets'"
    using ms ms' run by simp
  ultimately show ?case by blast
qed

lemma buildIndex_returns:
  "fam_id ` set fams \<subseteq> dom sets \<Longrightarrow> \<exists>r. buildIndex fams sets acc = Some r"
proof (induction fams arbitrary: acc)
  case Nil
  then show ?case by simp
next
  case (Cons family fams)
  obtain built m2f where acc: "acc = (built, m2f)" by (cases acc)
  from Cons.prems obtain ms where ms: "sets (fam_id family) = Some ms" by auto
  from Cons.prems have "fam_id ` set fams \<subseteq> dom sets" by auto
  from Cons.IH [OF this] acc ms show ?case by simp
qed

lemma detectFamilies_returns: "\<exists>r. detectFamilies d = Some r"
proof (cases "findRootNodes d = []")
  case True
  then show ?thesis by (simp add: detectFamilies_def)
next
  case False
  obtain fams sets0 where cf:
    "createFamilies d (zip (findRootNodes d) [0..<length (findRootNodes d)]) ([], Map.empty) = (fams, sets0)"
    by (cases "createFamilies d (zip (findRootNodes d) [0..<length (findRootNodes d)]) ([], Map.empty)")
  from createFamilies_dom [OF cf] have d0: "fam_id ` set fams \<subseteq> dom sets0" by simp
  from forEachFamily_returns [of "\<lambda>family ms. assignDescendants d (rootMemberId family) ms", OF _ d0]
  obtain sets1 where s1: "forEachFamily (\<lambda>family ms. assignDescendants d (rootMemberId family) ms) fams sets0 = Some sets1"
    and d1: "dom sets1 = dom sets0"
    using assignDescendants_returns by blast
  from d0 d1 have d1': "fam_id ` set fams \<subseteq> dom sets1" by simp
  from forEachFamily_returns [of "\<lambda>family ms. Some (assignSpouses d ms)", OF _ d1']
  obtain sets2 where s2: "forEachFamily (\<lambda>family ms. Some (assignSpouses d ms)) fams sets1 = Some sets2"
    and d2: "dom sets2 = dom sets1"
    by blast
  from d1' d2 have "fam_id ` set fams \<subseteq> dom sets2" by simp
  from buildIndex_returns [OF this, of "([], Map.empty)"]
  obtain fams' m2f where bi: "buildIndex fams sets2 ([], Map.empty) = Some (fams', m2f)" by force
  from False cf s1 s2 bi show ?thesis
    by (simp add: detectFamilies_def Let_def)
qed

lemma set_enqueueChildrenPatrilineal:
  "set (enqueueChildrenPatrilineal d m vis us q) \<subseteq> set q \<union> snd ` set (links d)"
  unfolding enqueueChildrenPatrilineal_def
proof (induction us arbitrary: q)
  case Nil
  then show ?case by simp
next
  case (Cons u us)
  have "set (if isPersonFatherInUnion d m (parseUnionId u)
             then fold (\<lambda>childId q'. if childId \<notin> set vis then q' @ [childId] else q')
                       (getChildrenOfUnion d u) q
             else q) \<subseteq> set q \<union> snd ` set (links d)"
    using set_getChildrenOfUnion [of d u] by (auto simp: pushChildren_filter)
  with Cons.IH show ?case by fastforce
qed

lemma assignDescendantsPatrilinealLoop_returns:
  "card ((set q \<union> snd ` set (links d)) - set vis) \<le> n
   \<Longrightarrow> \<exists>new fm' birth'.
         assignDescendantsPatrilinealLoop d familyId q vis pr fm birth = Some (pr @ new, fm', birth')
         \<and> distinct new \<and> set new \<inter> set vis = {} \<and> set fm' = set fm \<union> set new"
proof (induction n arbitrary: q vis pr fm birth)
  case 0
  then show ?case
  proof (induction q arbitrary: pr fm birth)
    case Nil
    then show ?case by (simp add: assignDescendantsPatrilinealLoop.simps)
  next
    case (Cons m rest)
    from Cons.prems have "(set (m # rest) \<union> snd ` set (links d)) - set vis = {}" by simp
    then have mv: "m \<in> set vis" and "(set rest \<union> snd ` set (links d)) - set vis = {}" by auto
    then have "card ((set rest \<union> snd ` set (links d)) - set vis) \<le> 0" by simp
    from Cons.IH [OF this] mv show ?case
      by (subst assignDescendantsPatrilinealLoop.simps) simp
  qed
next
  case (Suc n)
  then show ?case
  proof (induction q arbitrary: pr fm birth)
    case Nil
    then show ?case by (simp add: assignDescendantsPatrilinealLoop.simps)
  next
    case (Cons m rest)
    let ?T = "snd ` set (links d)"
    show ?case
    proof (cases "m \<in> set vis")
      case True
      have "card ((set rest \<union> ?T) - set vis) \<le> Suc n"
        using measure_skip [of ?T rest vis m] Cons.prems(2) by simp
      from Cons.IH [OF Cons.prems(1) this] True show ?thesis
        by (subst assignDescendantsPatrilinealLoop.simps) simp
    next
      case False
      let ?q = "enqueueChildrenPatrilineal d m (setAdd m vis) (getUnionsForMember d m) rest"
      let ?b = "if birth m = None then birth(m \<mapsto> familyId) else birth"
      have "card ((set ?q \<union> ?T) - set (setAdd m vis)) < card ((set (m # rest) \<union> ?T) - set vis)"
        using False set_enqueueChildrenPatrilineal by (intro measure_visit) auto
      then have "card ((set ?q \<union> ?T) - set (setAdd m vis)) \<le> n"
        using Cons.prems(2) by linarith
      from Cons.prems(1) [OF this, of "pr @ [m]" "setAdd m fm" ?b]
      obtain new fm' birth' where
        run: "assignDescendantsPatrilinealLoop d familyId ?q (setAdd m vis) (pr @ [m]) (setAdd m fm) ?b
                = Some ((pr @ [m]) @ new, fm', birth')"
        and new: "distinct new" "set new \<inter> set (setAdd m vis) = {}" "set fm' = set (setAdd m fm) \<union> set new"
        by blast
      have "assignDescendantsPatrilinealLoop d familyId (m # rest) vis pr fm birth
              = Some (pr @ (m # new), fm', birth')"
        using False run by (subst assignDescendantsPatrilinealLoop.simps) simp
      moreover have "distinct (m # new)" "set (m # new) \<inter> set vis = {}" "set fm' = set fm \<union> set (m # new)"
        using new False by (auto simp: setAdd_def split: if_splits)
      ultimately show ?thesis by blast
    qed
  qed
qed

lemma assignDescendantsPatrilineal_returns:
  "\<exists>r. assignDescendantsPatrilineal d rootId familyId fm birth = Some r"
  using assignDescendantsPatrilinealLoop_returns [of "[rootId]" d "[]" _ familyId "[]" fm birth, OF order_refl]
  by (auto simp: assignDescendantsPatrilineal_def assignDescendantsPatrilinealTrace_def)

lemma assignAllPatrilineal_returns:
  "fam_id ` set fams \<subseteq> dom sets
   \<Longrightarrow> \<exists>sets' birth'. assignAllPatrilineal d fams sets birth = Some (sets', birth') \<and> dom sets' = dom sets"
proof (induction fams arbitrary: sets birth)
  case Nil
  then show ?case by simp
next
  case (Cons family fams)
  from Cons.prems obtain ms where ms: "sets (fam_id family) = Some ms" by auto
  obtain ms' b' where st:
    "assignDescendantsPatrilineal d (rootMemberId family) (fam_id family) ms birth = Some (ms', b')"
    using assignDescendantsPatrilineal_returns by (metis surj_pair)
  have dm: "dom (sets(fam_id family \<mapsto> ms')) = dom sets" using ms by auto
  with Cons.prems have "fam_id ` set fams \<subseteq> dom (sets(fam_id family \<mapsto> ms'))" by auto
  from Cons.IH [OF this, of b'] obtain sets' birth' where
    run: "assignAllPatrilineal d fams (sets(fam_id family \<mapsto> ms')) b' = Some (sets', birth')"
    and "dom sets' = dom (sets(fam_id family \<mapsto> ms'))" by blast
  then have "dom sets' = dom sets" using dm by simp
  moreover have "assignAllPatrilineal d (family # fams) sets birth = Some (sets', birth')"
    using ms st run by simp
  ultimately show ?case by blast
qed

lemma assignAllSpouses_returns:
  "fam_id ` set fams \<subseteq> dom sets
   \<Longrightarrow> \<exists>sets' birth' m2f'. assignAllSpouses d fams sets birth m2f = Some (sets', birth', m2f')
         \<and> dom sets' = dom sets"
proof (induction fams arbitrary: sets birth m2f)
  case Nil
  then show ?case by simp
next
  case (Cons family fams)
  from Cons.prems obtain ms where ms: "sets (fam_id family) = Some ms" by auto
  obtain ms' b' m' where st:
    "assignSpousesToFamilies d (fam_id family) ms birth m2f = (ms', b', m')"
    by (cases "assignSpousesToFamilies d (fam_id family) ms birth m2f")
  have dm: "dom (sets(fam_id family \<mapsto> ms')) = dom sets" using ms by auto
  with Cons.prems have "fam_id ` set fams \<subseteq> dom (sets(fam_id family \<mapsto> ms'))" by auto
  from Cons.IH [OF this, of b' m'] obtain sets' birth' m2f' where
    run: "assignAllSpouses d fams (sets(fam_id family \<mapsto> ms')) b' m' = Some (sets', birth', m2f')"
    and "dom sets' = dom (sets(fam_id family \<mapsto> ms'))" by blast
  then have "dom sets' = dom sets" using dm by simp
  moreover have "assignAllSpouses d (family # fams) sets birth m2f = Some (sets', birth', m2f')"
    using ms st run by simp
  ultimately show ?case by blast
qed

lemma completeIndex_returns:
  "fam_id ` set fams \<subseteq> dom sets \<Longrightarrow> \<exists>r. completeIndex fams sets birth acc = Some r"
proof (induction fams arbitrary: acc)
  case Nil
  then show ?case by simp
next
  case (Cons family fams)
  obtain built m2f where acc: "acc = (built, m2f)" by (cases acc)
  from Cons.prems obtain ms where ms: "sets (fam_id family) = Some ms" by auto
  from Cons.prems have "fam_id ` set fams \<subseteq> dom sets" by auto
  from Cons.IH [OF this] acc ms show ?case by simp
qed

lemma detectFamiliesP_returns: "\<exists>r. detectFamiliesP d = Some r"
proof (cases "findRootNodes d = []")
  case True
  then show ?thesis by (simp add: detectFamiliesP_def)
next
  case False
  obtain fams sets0 where cf:
    "createFamilies d (zip (findRootNodes d) [0..<length (findRootNodes d)]) ([], Map.empty) = (fams, sets0)"
    by (cases "createFamilies d (zip (findRootNodes d) [0..<length (findRootNodes d)]) ([], Map.empty)")
  from createFamilies_dom [OF cf] have d0: "fam_id ` set fams \<subseteq> dom sets0" by simp
  from assignAllPatrilineal_returns [OF d0, of d Map.empty]
  obtain sets1 birth1 where s1: "assignAllPatrilineal d fams sets0 Map.empty = Some (sets1, birth1)"
    and d1: "dom sets1 = dom sets0" by blast
  from d0 d1 have d1': "fam_id ` set fams \<subseteq> dom sets1" by simp
  from assignAllSpouses_returns [OF d1', of d birth1 Map.empty]
  obtain sets2 birth2 m2f2 where s2: "assignAllSpouses d fams sets1 birth1 Map.empty = Some (sets2, birth2, m2f2)"
    and d2: "dom sets2 = dom sets1" by blast
  from d1' d2 have "fam_id ` set fams \<subseteq> dom sets2" by simp
  from completeIndex_returns [OF this, of birth2 "([], m2f2)"]
  obtain fams' m2f where ci: "completeIndex fams sets2 birth2 ([], m2f2) = Some (fams', m2f)" by force
  from False cf s1 s2 ci show ?thesis
    by (simp add: detectFamiliesP_def Let_def)
qed

text \<open>
  Claim C3. \<open>detectFamilies\<close> returns on every input, in both copies of the module:
  the result is never \<open>None\<close>, which stands for a loop that does not end or a
  \<open>TypeError\<close>. In each traversal, the trace of the processed member ids has no
  repetition: an id is processed at most once.
\<close>

theorem detectFamilies_terminates:
  "(\<exists>r. detectFamilies d = Some r)
   \<and> (\<exists>r. detectFamiliesP d = Some r)
   \<and> (\<exists>processed ms. assignDescendantsTrace d rootId fm = Some (processed, ms)
          \<and> distinct processed)
   \<and> (\<exists>processed ms birth'.
          assignDescendantsPatrilinealTrace d rootId familyId fm birth = Some (processed, ms, birth')
          \<and> distinct processed)"
proof (intro conjI)
  show "\<exists>r. detectFamilies d = Some r" by (rule detectFamilies_returns)
  show "\<exists>r. detectFamiliesP d = Some r" by (rule detectFamiliesP_returns)
  show "\<exists>processed ms. assignDescendantsTrace d rootId fm = Some (processed, ms) \<and> distinct processed"
    using assignDescendantsLoop_returns [of "[rootId]" d "[]" _ "[]" fm, OF order_refl]
    by (auto simp: assignDescendantsTrace_def)
  show "\<exists>processed ms birth'.
          assignDescendantsPatrilinealTrace d rootId familyId fm birth = Some (processed, ms, birth')
          \<and> distinct processed"
    using assignDescendantsPatrilinealLoop_returns
            [of "[rootId]" d "[]" _ familyId "[]" fm birth, OF order_refl]
    by (auto simp: assignDescendantsPatrilinealTrace_def)
qed

text \<open>
  On the circular graph of the tests both copies return one family with both members,
  and the traversal from \<open>mem_1\<close> processes \<open>mem_1\<close> and \<open>mem_2\<close> once each.
\<close>

lemma circular_values:
  "map_option (\<lambda>r. map (\<lambda>f. (fam_id f, memberCount f)) (families r)) (detectFamilies circular)
     = Some [(''family_mem_1'', 2)]"
  "map_option (\<lambda>r. map (\<lambda>f. (fam_id f, memberCount f)) (familiesP r)) (detectFamiliesP circular)
     = Some [(''family_mem_1'', 2)]"
  "assignDescendantsTrace circular ''mem_1'' [] = Some ([''mem_1'', ''mem_2''], [''mem_1'', ''mem_2''])"
  by code_simp+

theorem detectFamilies_terminates_witness:
  "(\<exists>r. detectFamilies circular = Some r)
   \<and> (\<exists>r. detectFamiliesP circular = Some r)
   \<and> map_option (\<lambda>r. map (\<lambda>f. (fam_id f, memberCount f)) (families r)) (detectFamilies circular)
       = Some [(''family_mem_1'', 2)]
   \<and> map_option (\<lambda>r. map (\<lambda>f. (fam_id f, memberCount f)) (familiesP r)) (detectFamiliesP circular)
       = Some [(''family_mem_1'', 2)]
   \<and> assignDescendantsTrace circular ''mem_1'' []
       = Some ([''mem_1'', ''mem_2''], [''mem_1'', ''mem_2''])"
  using detectFamilies_terminates [of circular "''mem_1''" "[]" "''family_mem_1''" Map.empty]
    circular_values
  by blast

section \<open>Dual membership\<close>

text \<open>
  Claim C2, as amended. In the intermarriage scenario of the tests (B male, C female),
  the families are those of the roots Y and A. The first copy of \<open>detectFamilies\<close>
  gives B, C and D the two-element list of both family ids. The patrilineal copy gives B
  and C two-element lists with both ids (the birth family first), and gives D the
  one-element list of its father's family.
\<close>

theorem intermarriage_memberships:
  "map_option (\<lambda>r. (map fam_id (families r),
                      map (memberToFamilies r) [''mem_2'', ''mem_4'', ''mem_5'']))
     (detectFamilies intermarriage)
     = Some ([''family_mem_1'', ''family_mem_3''],
             [Some [''family_mem_1'', ''family_mem_3''],
              Some [''family_mem_1'', ''family_mem_3''],
              Some [''family_mem_1'', ''family_mem_3'']])
   \<and> map_option (\<lambda>r. (map fam_id (familiesP r),
                        map (memberToFamiliesP r) [''mem_2'', ''mem_4'', ''mem_5'']))
       (detectFamiliesP intermarriage)
     = Some ([''family_mem_1'', ''family_mem_3''],
             [Some [''family_mem_1'', ''family_mem_3''],
              Some [''family_mem_3'', ''family_mem_1''],
              Some [''family_mem_1'']])"
  by (intro conjI; code_simp)

text \<open>
  Claim C2 as stated fails on the patrilineal copy: the list of D has length 1, not 2.
\<close>

theorem intermarriage_child_counterexample:
  "map_option (\<lambda>r. map_option length (memberToFamiliesP r ''mem_5''))
     (detectFamiliesP intermarriage) \<noteq> Some (Some 2)"
  by code_simp

section \<open>Default selection\<close>

lemma set_fold_setAdd: "set (fold setAdd xs acc) = set acc \<union> set xs"
  by (induction xs arbitrary: acc) (auto simp: setAdd_def)

lemma set_newSet: "set (newSet xs) = set xs"
  by (simp add: newSet_def set_fold_setAdd)

lemma newSet_Nil: "newSet [] = []"
  by (simp add: newSet_def)

text \<open>
  Claim C8, as amended. The first copy of \<open>getDefaultActiveFamilies\<close> returns exactly
  the family ids of the current person when a non-empty current person id is given and
  its list of families is not empty, and all family ids in every other case. The
  patrilineal copy takes the birth-family map instead: it returns the birth family of the
  current person alone when there is one, and otherwise the id of the first family alone
  (the empty set when there is no family).
\<close>

theorem getDefaultActiveFamilies_result:
  "set (getDefaultActiveFamilies fams m2f cur) =
     (if \<exists>c nodeFamilies. cur = Some c \<and> c \<noteq> [] \<and> m2f c = Some nodeFamilies \<and> nodeFamilies \<noteq> []
      then set (the (m2f (the cur)))
      else fam_id ` set fams)
   \<and> set (getDefaultActiveFamiliesP fams birth cur) =
     (if \<exists>c b. cur = Some c \<and> c \<noteq> [] \<and> birth c = Some b \<and> b \<noteq> []
      then {the (birth (the cur))}
      else if fams \<noteq> [] then {fam_id (hd fams)}
      else {})"
  by (auto simp: getDefaultActiveFamilies_def getDefaultActiveFamiliesP_def set_newSet newSet_Nil
                 truthy_def split: option.splits)

text \<open>
  Claim C8 as stated fails on the patrilineal copy: with two families and no current
  person it returns the first family only, not all family ids.
\<close>

theorem getDefaultActiveFamilies_counterexample:
  "set (getDefaultActiveFamiliesP [familyA, familyB] Map.empty None) = {''family_mem_1''}
   \<and> set (getDefaultActiveFamiliesP [familyA, familyB] Map.empty None)
       \<noteq> fam_id ` set [familyA, familyB]"
  by (simp add: getDefaultActiveFamiliesP_def truthy_def newSet_def setAdd_def familyA_def familyB_def)

text \<open>The calls of the tests, and a call of the patrilineal copy.\<close>

theorem getDefaultActiveFamilies_result_witness:
  "set (getDefaultActiveFamilies [familyA, familyB]
          [''mem_1'' \<mapsto> [''family_mem_1''], ''mem_2'' \<mapsto> [''family_mem_1'', ''family_mem_3''],
           ''mem_3'' \<mapsto> [''family_mem_3'']] (Some ''mem_2''))
     = {''family_mem_1'', ''family_mem_3''}
   \<and> set (getDefaultActiveFamilies [familyA] [''mem_1'' \<mapsto> [''family_mem_1'']] (Some ''mem_999''))
     = {''family_mem_1''}
   \<and> set (getDefaultActiveFamiliesP [familyA, familyB] [''mem_2'' \<mapsto> ''family_mem_3''] (Some ''mem_2''))
     = {''family_mem_3''}"
  using getDefaultActiveFamilies_result
          [of "[familyA, familyB]"
              "[''mem_1'' \<mapsto> [''family_mem_1''], ''mem_2'' \<mapsto> [''family_mem_1'', ''family_mem_3''],
                ''mem_3'' \<mapsto> [''family_mem_3'']]" "Some ''mem_2''" "[''mem_2'' \<mapsto> ''family_mem_3'']"]
        getDefaultActiveFamilies_result
          [of "[familyA]" "[''mem_1'' \<mapsto> [''family_mem_1'']]" "Some ''mem_999''" Map.empty]
  by (simp add: familyA_def familyB_def)

section \<open>Spouse assignment\<close>

lemma set_addPartners:
  "set (addPartners d m ps fm) =
     set fm \<union> {p \<in> set ps. p \<noteq> m \<and> p \<noteq> ''0'' \<and> memberAt d p \<noteq> None}"
  unfolding addPartners_def
  by (induction ps arbitrary: fm) (auto simp: setAdd_def)

lemma set_unionsFold:
  "set (fold (\<lambda>unionId fm'. addPartners d m (parseUnionId unionId) fm') us fm) =
     set fm \<union> {p. \<exists>u\<in>set us. p \<in> set (parseUnionId u) \<and> p \<noteq> m \<and> p \<noteq> ''0''
                     \<and> memberAt d p \<noteq> None}"
  by (induction us arbitrary: fm) (auto simp: set_addPartners)

lemma set_membersFold:
  "set (fold (\<lambda>memberId fm.
             fold (\<lambda>unionId fm'. addPartners d memberId (parseUnionId unionId) fm')
                  (getUnionsForMember d memberId) fm) ms fm0) =
     set fm0 \<union> {p. \<exists>m\<in>set ms. \<exists>u\<in>set (getUnionsForMember d m).
                     p \<in> set (parseUnionId u) \<and> p \<noteq> m \<and> p \<noteq> ''0'' \<and> memberAt d p \<noteq> None}"
  by (induction ms arbitrary: fm0) (auto simp: set_unionsFold)

lemma parseUnionId_prefixed: "p \<in> set (parseUnionId u) \<Longrightarrow> startsWith p ''mem_''"
  by (auto simp: parseUnionId_def startsWith_def split: option.splits if_splits)

lemma prefixed_not_placeholder: "startsWith p ''mem_'' \<Longrightarrow> p \<noteq> ''0''"
  by (auto simp: startsWith_def)

lemma prefixed_not_inherited: "startsWith p ''mem_'' \<Longrightarrow> p \<notin> fst ` set objectPrototype"
  by (auto simp: startsWith_def objectPrototype_def)

lemma prefixed_memberAt:
  "startsWith p ''mem_'' \<Longrightarrow> memberAt d p \<noteq> None \<longleftrightarrow> p \<in> fst ` set (members d)"
  using prefixed_not_inherited [of p] by (simp add: memberAt_None_iff)

lemma dotRun_no_terminator: "c \<in> set (dotRun s) \<Longrightarrow> \<not> isLineTerminator c"
  unfolding dotRun_def by (auto dest: set_takeWhileD)

lemma dotRun_prefix: "\<exists>post. s = dotRun s @ post"
  unfolding dotRun_def by (metis takeWhile_dropWhile_id)

lemma group1_sound:
  "group1 r k = Some (a, b) \<Longrightarrow>
     a \<noteq> [] \<and> b \<noteq> [] \<and> length a \<le> k \<and> (\<exists>post. r = a @ ''_'' @ b @ post)"
proof (induction k)
  case 0
  then show ?case by simp
next
  case (Suc k)
  show ?case
  proof (cases "drop (Suc k) r")
    case Nil
    with Suc show ?thesis by auto
  next
    case (Cons c rest)
    show ?thesis
    proof (cases "c = CHR ''_'' \<and> dotRun rest \<noteq> []")
      case True
      with Suc.prems Cons have a: "a = take (Suc k) r" and b: "b = dotRun rest" by auto
      from Cons have len: "Suc k < length r" by (metis drop_eq_Nil2 list.distinct(1) not_le)
      obtain post where post: "rest = dotRun rest @ post" using dotRun_prefix by blast
      have "r = take (Suc k) r @ drop (Suc k) r" by simp
      also have "\<dots> = a @ ''_'' @ b @ post" using Cons True a b post by simp
      finally have "r = a @ ''_'' @ b @ post" .
      moreover have "a \<noteq> []" using a len by auto
      moreover have "length a \<le> Suc k" using a by simp
      ultimately show ?thesis using True b by auto
    next
      case False
      with Suc.prems Cons have "group1 r k = Some (a, b)" by auto
      from Suc.IH [OF this] show ?thesis by auto
    qed
  qed
qed

lemma matchHere_sound:
  "matchHere s = Some (a, b) \<Longrightarrow> a \<noteq> [] \<and> b \<noteq> [] \<and> (\<exists>post. s = ''u_'' @ a @ ''_'' @ b @ post)"
proof -
  assume m: "matchHere s = Some (a, b)"
  then have sw: "startsWith s ''u_''"
    and g: "group1 (drop 2 s) (length (dotRun (drop 2 s))) = Some (a, b)"
    by (auto simp: matchHere_def split: if_splits)
  from sw have "s = ''u_'' @ drop 2 s"
    by (metis append_take_drop_id length_Cons list.size(3) numeral_2_eq_2 startsWith_def)
  with group1_sound [OF g] show ?thesis by metis
qed

lemma regexMatch_sound:
  "regexMatch s = Some (a, b) \<Longrightarrow>
     a \<noteq> [] \<and> b \<noteq> [] \<and> (\<exists>pre post. s = pre @ ''u_'' @ a @ ''_'' @ b @ post)"
proof (induction s)
  case Nil
  then show ?case by simp
next
  case (Cons c cs)
  show ?case
  proof (cases "matchHere (c # cs)")
    case None
    with Cons.prems have "regexMatch cs = Some (a, b)" by simp
    from Cons.IH [OF this] obtain pre post where "cs = pre @ ''u_'' @ a @ ''_'' @ b @ post"
      and ne: "a \<noteq> []" "b \<noteq> []" by blast
    then have "c # cs = (c # pre) @ ''u_'' @ a @ ''_'' @ b @ post" by simp
    with ne show ?thesis by blast
  next
    case (Some g)
    with Cons.prems have "matchHere (c # cs) = Some (a, b)" by simp
    from matchHere_sound [OF this] obtain post where "c # cs = [] @ ''u_'' @ a @ ''_'' @ b @ post"
      and ne: "a \<noteq> []" "b \<noteq> []" by auto
    with ne show ?thesis by blast
  qed
qed

text \<open>
  The members that \<open>assignSpouses\<close> adds are exactly the partner ids parsed from the ids
  of the unions of the original members, without the member itself and the ids that are
  not keys of the member table. A union id that the pattern does not match yields no
  partner; one that it matches contains \<open>u_\<close>, a non-empty \<open>a\<close>, an underscore and a
  non-empty \<open>b\<close>, and yields \<open>a\<close> and \<open>b\<close>, each prefixed with \<open>mem_\<close> unless it starts
  so. Hence a person outside the family that none of these union ids names is not added,
  whatever edges link that person to the unions. A parsed partner id always starts with
  \<open>mem_\<close>, so it is never the string \<open>0\<close>: the comparison with \<open>0\<close> in the code never
  holds.
\<close>

lemma assignSpouses_partners:
  "set (assignSpouses d fm) =
     set fm \<union> {p. \<exists>m\<in>set fm. \<exists>u\<in>set (getUnionsForMember d m).
                    p \<in> set (parseUnionId u) \<and> p \<noteq> m \<and> p \<in> fst ` set (members d)}"
  "regexMatch u = None \<Longrightarrow> parseUnionId u = []"
  "regexMatch u = Some (a, b) \<Longrightarrow>
     a \<noteq> [] \<and> b \<noteq> [] \<and> (\<exists>pre post. u = pre @ ''u_'' @ a @ ''_'' @ b @ post)
     \<and> parseUnionId u = [if startsWith a ''mem_'' then a else ''mem_'' @ a,
                          if startsWith b ''mem_'' then b else ''mem_'' @ b]"
  "q \<in> set (parseUnionId u) \<Longrightarrow> startsWith q ''mem_'' \<and> q \<noteq> ''0''"
proof -
  have "set (assignSpouses d fm) =
     set fm \<union> {p. \<exists>m\<in>set fm. \<exists>u\<in>set (getUnionsForMember d m).
                    p \<in> set (parseUnionId u) \<and> p \<noteq> m \<and> p \<noteq> ''0'' \<and> memberAt d p \<noteq> None}"
    by (simp add: assignSpouses_def set_membersFold)
  also have "\<dots> =
     set fm \<union> {p. \<exists>m\<in>set fm. \<exists>u\<in>set (getUnionsForMember d m).
                    p \<in> set (parseUnionId u) \<and> p \<noteq> m \<and> p \<in> fst ` set (members d)}"
    using parseUnionId_prefixed prefixed_not_placeholder prefixed_memberAt by blast
  finally show "set (assignSpouses d fm) =
     set fm \<union> {p. \<exists>m\<in>set fm. \<exists>u\<in>set (getUnionsForMember d m).
                    p \<in> set (parseUnionId u) \<and> p \<noteq> m \<and> p \<in> fst ` set (members d)}" .
  show "regexMatch u = None \<Longrightarrow> parseUnionId u = []"
    by (simp add: parseUnionId_def)
  show "regexMatch u = Some (a, b) \<Longrightarrow>
     a \<noteq> [] \<and> b \<noteq> [] \<and> (\<exists>pre post. u = pre @ ''u_'' @ a @ ''_'' @ b @ post)
     \<and> parseUnionId u = [if startsWith a ''mem_'' then a else ''mem_'' @ a,
                          if startsWith b ''mem_'' then b else ''mem_'' @ b]"
    using regexMatch_sound [of u a b] by (simp add: parseUnionId_def)
  show "q \<in> set (parseUnionId u) \<Longrightarrow> startsWith q ''mem_'' \<and> q \<noteq> ''0''"
    using parseUnionId_prefixed prefixed_not_placeholder by blast
qed

lemma assignSpouses_unnamed:
  "p \<notin> set fm \<Longrightarrow> \<forall>m\<in>set fm. \<forall>u\<in>set (getUnionsForMember d m). p \<notin> set (parseUnionId u)
   \<Longrightarrow> p \<notin> set (assignSpouses d fm)"
  unfolding assignSpouses_partners(1) by blast

text \<open>
  In \<open>misnamedUnion\<close>, \<open>mem_2\<close> has an edge to the union \<open>u_1_3\<close> of \<open>mem_1\<close>, whose id
  names \<open>mem_1\<close> and \<open>mem_3\<close>: \<open>mem_3\<close> is added to the family of \<open>mem_1\<close> and \<open>mem_2\<close>
  is not.
\<close>

lemma misnamedUnion_values:
  "assignSpouses misnamedUnion [''mem_1''] = [''mem_1'', ''mem_3'']"
  "getUnionsForMember misnamedUnion ''mem_2'' = [''u_1_3'']"
  "parseUnionId ''u_family'' = []"
  "parseUnionId ''u_1_3'' = [''mem_1'', ''mem_3'']"
  by code_simp+

text \<open>
  Claim C10. The claim holds but for the placeholder: the partner parsed from the
  placeholder \<open>0\<close> is \<open>mem_0\<close>, which the comparison with the string \<open>0\<close> does not catch.
  In \<open>placeholderPartner\<close> the union \<open>u_1_0\<close> of the single parent \<open>mem_1\<close> yields the
  partners \<open>mem_1\<close> and \<open>mem_0\<close>, and the member \<open>mem_0\<close>, who has no edge to any union, is
  added to the family of \<open>mem_1\<close> as a spouse and ends up in both families.
\<close>

theorem assignSpouses_placeholder_added:
  "parseUnionId ''u_1_0'' = [''mem_1'', ''mem_0'']
   \<and> getUnionsForMember placeholderPartner ''mem_0'' = []
   \<and> assignSpouses placeholderPartner [''mem_1'', ''mem_2''] = [''mem_1'', ''mem_2'', ''mem_0'']
   \<and> map_option (\<lambda>r. memberToFamilies r ''mem_0'') (detectFamilies placeholderPartner)
       = Some (Some [''family_mem_0'', ''family_mem_1''])"
  by (intro conjI; code_simp)

section \<open>Colour determinism\<close>

lemma jsRem_hue: "jsRem (real i * (1375 / 10)) 360 = real ((275 * i) mod 720) / 2"
proof -
  have q: "real i * (1375 / 10) / 360 = real (275 * i) / real 720" by simp
  have "trunc (real i * (1375 / 10) / 360) = int ((275 * i) div 720)"
    unfolding q trunc_def by (simp add: floor_divide_of_nat_eq del: of_nat_mult of_nat_numeral)
  then have "jsRem (real i * (1375 / 10)) 360
      = real i * (1375 / 10) - 360 * real ((275 * i) div 720)"
    by (simp add: jsRem_def)
  also have "\<dots> = (real (275 * i) - real (720 * ((275 * i) div 720))) / 2" by simp
  also have "real (275 * i) - real (720 * ((275 * i) div 720)) = real ((275 * i) mod 720)"
    by (metis add_diff_cancel_left' mult_div_mod_eq of_nat_add)
  finally show ?thesis .
qed

lemma generateFamilyColor_cases:
  "generateFamilyColor i =
     (if i < 10 then FAMILY_COLOR_PALETTE ! i
      else hslToHex (real ((275 * i) mod 720) / 2) 70 55)"
  by (simp only: generateFamilyColor_def jsRem_hue) (simp add: FAMILY_COLOR_PALETTE_def)

lemma palette_colors: "map generateFamilyColor [0..<10] = FAMILY_COLOR_PALETTE"
  by (simp add: generateFamilyColor_cases FAMILY_COLOR_PALETTE_def upt_conv_Cons)

lemma generated_colors:
  "map generateFamilyColor [10..<100] =
     [''#CF3CDD'', ''#BBDD3C'', ''#3C8CDD'', ''#DD3C5D'', ''#3CDD49'', ''#783CDD'',
      ''#DDA73C'', ''#3CDDD6'', ''#DD3CB4'', ''#86DD3C'', ''#3C57DD'', ''#DD503C'',
      ''#3CDD7F'', ''#AE3CDD'', ''#DDDD3C'', ''#3CAEDD'', ''#DD3C7F'', ''#50DD3C'',
      ''#573CDD'', ''#DD863C'', ''#3CDDB4'', ''#DD3CD6'', ''#A7DD3C'', ''#3C78DD'',
      ''#DD3C49'', ''#3CDD5D'', ''#8C3CDD'', ''#DDBB3C'', ''#3CCFDD'', ''#DD3CA0'',
      ''#71DD3C'', ''#3C43DD'', ''#DD643C'', ''#3CDD93'', ''#C23CDD'', ''#C8DD3C'',
      ''#3C9ADD'', ''#DD3C6B'', ''#3CDD3C'', ''#6B3CDD'', ''#DD9A3C'', ''#3CDDC8'',
      ''#DD3CC2'', ''#93DD3C'', ''#3C64DD'', ''#DD433C'', ''#3CDD71'', ''#A03CDD'',
      ''#DDCF3C'', ''#3CBBDD'', ''#DD3C8C'', ''#5DDD3C'', ''#493CDD'', ''#DD783C'',
      ''#3CDDA7'', ''#D63CDD'', ''#B4DD3C'', ''#3C86DD'', ''#DD3C57'', ''#3CDD50'',
      ''#7F3CDD'', ''#DDAE3C'', ''#3CDDDD'', ''#DD3CAE'', ''#7FDD3C'', ''#3C50DD'',
      ''#DD573C'', ''#3CDD86'', ''#B43CDD'', ''#D6DD3C'', ''#3CA7DD'', ''#DD3C78'',
      ''#49DD3C'', ''#5D3CDD'', ''#DD8C3C'', ''#3CDDBB'', ''#DD3CCF'', ''#A0DD3C'',
      ''#3C71DD'', ''#DD3C43'', ''#3CDD64'', ''#933CDD'', ''#DDC23C'', ''#3CC8DD'',
      ''#DD3C9A'', ''#6BDD3C'', ''#3C3CDD'', ''#DD6B3C'', ''#3CDD9A'', ''#C83CDD'']"
  apply (simp add: generateFamilyColor_cases upt_rec_numeral del: upt.simps)
  apply (simp add: hslToHex_def jsRem_def trunc_def mathRound_def Let_def)
  apply (simp add: toString16_def padStart2_def toString16nat.simps hexDigit_def)
  apply (simp add: toUpperCase_def upperChar_def)
  done

lemma upt_100_split: "[0..<100] = [0..<10] @ [10..<100]"
  using upt_add_eq_append [of 0 10 90] by simp

lemma distinct_colors: "distinct (map generateFamilyColor [0..<100])"
  unfolding upt_100_split map_append palette_colors generated_colors FAMILY_COLOR_PALETTE_def
  by simp

lemma colors_differ:
  assumes "i < 100" "j < 100" "i \<noteq> j"
  shows "generateFamilyColor i \<noteq> generateFamilyColor j"
proof -
  have "map generateFamilyColor [0..<100] ! i \<noteq> map generateFamilyColor [0..<100] ! j"
    using assms distinct_colors by (simp only: nth_eq_iff_index_eq length_map length_upt) simp
  then show ?thesis using assms by simp
qed

lemma hue_295: "hslToHex 295 70 55 = ''#CF3CDD''"
  apply (simp add: hslToHex_def jsRem_def trunc_def mathRound_def Let_def)
  apply (simp add: toString16_def padStart2_def toString16nat.simps hexDigit_def)
  apply (simp add: toUpperCase_def upperChar_def)
  done

text \<open>The hue repeats after 144 steps: index 154 has the colour of index 10.\<close>

lemma colors_repeat: "generateFamilyColor 154 = generateFamilyColor 10"
  by (simp add: generateFamilyColor_cases)

text \<open>
  Claim C9. \<open>generateFamilyColor\<close> is a function of the index alone. The palette has
  ten entries and the indices below 10 return them by position; from index 10 on the
  colour is \<open>hslToHex\<close> of the hue \<open>(index * 137.5) % 360\<close>, which is half of
  \<open>275 * index mod 720\<close>, with saturation 70 and lightness 55; and the colours of two
  different indices below 100 differ.
\<close>

theorem generateFamilyColor_spec:
  "length FAMILY_COLOR_PALETTE = 10
   \<and> (\<forall>i<10. generateFamilyColor i = FAMILY_COLOR_PALETTE ! i)
   \<and> (\<forall>i\<ge>10. generateFamilyColor i = hslToHex (jsRem (real i * (1375 / 10)) 360) 70 55
              \<and> jsRem (real i * (1375 / 10)) 360 = real ((275 * i) mod 720) / 2)
   \<and> (\<forall>i<100. \<forall>j<100. i \<noteq> j \<longrightarrow> generateFamilyColor i \<noteq> generateFamilyColor j)"
proof (intro conjI allI impI)
  show "length FAMILY_COLOR_PALETTE = 10" by (simp add: FAMILY_COLOR_PALETTE_def)
next
  fix i :: nat assume "i < 10"
  then show "generateFamilyColor i = FAMILY_COLOR_PALETTE ! i"
    by (simp add: generateFamilyColor_def FAMILY_COLOR_PALETTE_def)
next
  fix i :: nat assume "10 \<le> i"
  then show "generateFamilyColor i = hslToHex (jsRem (real i * (1375 / 10)) 360) 70 55"
    by (simp add: generateFamilyColor_def FAMILY_COLOR_PALETTE_def)
next
  fix i :: nat
  show "jsRem (real i * (1375 / 10)) 360 = real ((275 * i) mod 720) / 2" by (rule jsRem_hue)
next
  fix i j :: nat assume "i < 100" "j < 100" "i \<noteq> j"
  then show "generateFamilyColor i \<noteq> generateFamilyColor j" by (rule colors_differ)
qed

theorem generateFamilyColor_spec_witness:
  "generateFamilyColor 3 = ''#F59E0B''
   \<and> generateFamilyColor 10 = ''#CF3CDD''
   \<and> generateFamilyColor 10 \<noteq> generateFamilyColor 99"
proof -
  note spec = generateFamilyColor_spec
  note palette = spec [THEN conjunct2, THEN conjunct1, rule_format]
  note generated = spec [THEN conjunct2, THEN conjunct2, THEN conjunct1, rule_format]
  note differ = spec [THEN conjunct2, THEN conjunct2, THEN conjunct2, rule_format]
  have "generateFamilyColor 3 = FAMILY_COLOR_PALETTE ! 3" by (rule palette) simp
  then have a: "generateFamilyColor 3 = ''#F59E0B''" by (simp add: FAMILY_COLOR_PALETTE_def)
  have "generateFamilyColor 10 = hslToHex (jsRem (real 10 * (1375 / 10)) 360) 70 55"
    and "jsRem (real 10 * (1375 / 10)) 360 = real ((275 * 10) mod 720) / 2"
    using generated [of 10] by simp_all
  then have "generateFamilyColor 10 = hslToHex 295 70 55" by simp
  then have b: "generateFamilyColor 10 = ''#CF3CDD''" by (simp only: hue_295)
  have c: "generateFamilyColor 10 \<noteq> generateFamilyColor 99" by (rule differ) simp_all
  from a b c show ?thesis by blast
qed

section \<open>Properties of the relaxation engine\<close>

subsection \<open>Sweeps on value lists\<close>

lemma length_sweepVals [simp]: "length (sweepVals s p vs) = length vs"
  by (induction vs arbitrary: p) auto

lemma length_placeVals [simp]: "length (placeVals s vs) = length vs"
  by (cases vs) auto

lemma spaced_sweepVals: "spaced s (p # sweepVals s p vs)"
  by (induction vs arbitrary: p) auto

lemma spaced_placeVals: "spaced s (placeVals s vs)"
  by (cases vs) (auto simp: spaced_sweepVals)

lemma sweepVals_ge: "k < length vs \<Longrightarrow> vs ! k \<le> sweepVals s p vs ! k"
  by (induction vs arbitrary: p k) (auto simp: nth_Cons split: nat.splits)

lemma placeVals_ge: "k < length vs \<Longrightarrow> vs ! k \<le> placeVals s vs ! k"
  by (cases vs) (auto simp: nth_Cons sweepVals_ge split: nat.splits)

lemma sweepVals_fix: "spaced s (p # vs) \<Longrightarrow> sweepVals s p vs = vs"
proof (induction vs arbitrary: p)
  case (Cons a vs)
  then have "p + s \<le> a" and sp: "spaced s (a # vs)" by auto
  then have "max a (p + s) = a" by simp
  with Cons.IH [OF sp] show ?case by simp
qed simp

lemma placeVals_fix: "spaced s vs \<Longrightarrow> placeVals s vs = vs"
  by (cases vs) (auto simp: sweepVals_fix)

lemma placeVals_idem: "placeVals s (placeVals s vs) = placeVals s vs"
  by (rule placeVals_fix) (rule spaced_placeVals)

lemma spaced_sorted: "0 \<le> s \<Longrightarrow> spaced s xs \<Longrightarrow> sorted xs"
proof (induction xs rule: spaced.induct)
  case (3 s a b rest)
  then have "sorted (b # rest)" and "a \<le> b" by auto
  then show ?case by (auto intro: order_trans)
qed auto

lemma spaced_strict: "0 < s \<Longrightarrow> spaced s xs \<Longrightarrow> sorted_wrt (<) xs"
proof (induction xs rule: spaced.induct)
  case (3 s a b rest)
  then have st: "sorted_wrt (<) (b # rest)" and "a < b" by auto
  then show ?case by (auto intro: less_trans)
qed auto

lemma sorted_spaced: "s \<le> 0 \<Longrightarrow> sorted xs \<Longrightarrow> spaced s xs"
  by (induction xs rule: spaced.induct) auto

lemma sweepVals_shift:
  "sweepVals s (p + c) (map (\<lambda>v. v + c) vs) = map (\<lambda>v. v + c) (sweepVals s p vs)"
proof (induction vs arbitrary: p)
  case (Cons v vs)
  have "max (v + c) (p + c + s) = max v (p + s) + c" by (simp add: max_def)
  with Cons [of "max v (p + s)"] show ?case by simp
qed simp

lemma placeVals_shift:
  "placeVals s (map (\<lambda>v. v + c) vs) = map (\<lambda>v. v + c) (placeVals s vs)"
  by (cases vs) (auto simp: sweepVals_shift)

subsection \<open>Sweeps on the store\<close>

lemma sweep_frame: "j \<notin> set L \<Longrightarrow> sweep s p L X j = X j"
  by (induction L arbitrary: p X) auto

lemma place_frame: "j \<notin> set L \<Longrightarrow> place s L X j = X j"
  by (cases L) (auto simp: sweep_frame)

lemma map_sweep: "distinct L \<Longrightarrow> map (sweep s p L X) L = sweepVals s p (map X L)"
proof (induction L arbitrary: p X)
  case (Cons i L)
  let ?v = "max (X i) (p + s)"
  have "sweep s ?v L (X(i := ?v)) i = ?v" using Cons.prems by (simp add: sweep_frame)
  moreover have "map (sweep s ?v L (X(i := ?v))) L = sweepVals s ?v (map (X(i := ?v)) L)"
    using Cons by simp
  moreover have "map (X(i := ?v)) L = map X L" using Cons.prems by auto
  ultimately show ?case by simp
qed simp

lemma map_place: "distinct L \<Longrightarrow> map (place s L X) L = placeVals s (map X L)"
proof (cases L)
  case (Cons i rest)
  assume "distinct L"
  with Cons have d: "distinct rest" "i \<notin> set rest" by auto
  have "sweep s (X i) rest X i = X i" using d by (simp add: sweep_frame)
  with map_sweep [OF d(1), of s "X i" X] Cons show ?thesis by simp
qed simp

subsection \<open>Sorting by the store\<close>

lemma insort_key_rel:
  assumes "\<forall>i\<in>set (a # L). Y i = X i + (c::real)"
  shows "insort_key Y a L = insort_key X a L"
  using assms by (induction L) auto

lemma sort_key_rel:
  assumes "\<forall>i\<in>set I. Y i = X i + (c::real)"
  shows "sort_key Y I = sort_key X I"
  using assms
proof (induction I)
  case (Cons a I)
  then have "sort_key Y I = sort_key X I" by simp
  moreover have "\<forall>i\<in>set (a # sort_key X I). Y i = X i + c" using Cons.prems by simp
  ultimately show ?case using insort_key_rel [of a "sort_key X I" Y X c] by simp
qed simp

lemma map_sort_key: "map f (sort_key f xs) = sort (map f xs)"
  by (rule properties_for_sort [symmetric]) (simp_all add: mset_map)

lemma filter_singleton:
  "distinct xs \<Longrightarrow> k \<in> set xs \<Longrightarrow> (\<forall>x\<in>set xs. P x \<longleftrightarrow> x = k) \<Longrightarrow> filter P xs = [k]"
proof (induction xs)
  case (Cons a xs)
  show ?case
  proof (cases "a = k")
    case True
    with Cons.prems have "\<forall>x\<in>set xs. \<not> P x" by auto
    then have "filter P xs = []" by (simp add: filter_empty_conv)
    with True Cons.prems show ?thesis by simp
  next
    case False
    with Cons show ?thesis by auto
  qed
qed simp

subsection \<open>One level\<close>

lemma distinct_levelIndices [simp]: "distinct (levelIndices ns lv)"
  by (simp add: levelIndices_def)

lemma set_levelIndices: "set (levelIndices ns lv) = {i. i < length ns \<and> node_y (ns ! i) = lv}"
  by (auto simp: levelIndices_def)

lemma set_sortedLevel [simp]: "set (sortedLevel ns X lv) = set (levelIndices ns lv)"
  by (simp add: sortedLevel_def)

lemma distinct_sortedLevel [simp]: "distinct (sortedLevel ns X lv)"
  by (simp add: sortedLevel_def)

lemma placeLevel_frame: "j \<notin> set (levelIndices ns lv) \<Longrightarrow> placeLevel s ns lv X j = X j"
  by (simp add: placeLevel_def place_frame)

lemma placeLevel_values:
  "map (placeLevel s ns lv X) (sortedLevel ns X lv) = placeVals s (map X (sortedLevel ns X lv))"
  by (simp add: placeLevel_def map_place)

lemma placeLevel_ge: "X j \<le> placeLevel s ns lv X j"
proof (cases "j \<in> set (levelIndices ns lv)")
  case True
  let ?L = "sortedLevel ns X lv"
  from True obtain k where k: "k < length ?L" "?L ! k = j"
    by (metis in_set_conv_nth set_sortedLevel)
  have "map X ?L ! k \<le> placeVals s (map X ?L) ! k" using k by (intro placeVals_ge) simp
  also have "\<dots> = map (placeLevel s ns lv X) ?L ! k" by (simp add: placeLevel_values)
  finally show ?thesis using k by simp
next
  case False
  then show ?thesis by (simp add: placeLevel_frame)
qed

lemma placeLevel_rel:
  assumes "\<forall>i\<in>set (levelIndices ns lv). Y i = X i + c"
  shows "\<forall>i\<in>set (levelIndices ns lv). placeLevel s ns lv Y i = placeLevel s ns lv X i + c"
proof -
  let ?L = "sortedLevel ns X lv"
  have L: "sortedLevel ns Y lv = ?L"
    unfolding sortedLevel_def using assms by (rule sort_key_rel)
  have Y: "map Y ?L = map (\<lambda>v. v + c) (map X ?L)" using assms by simp
  have "map (placeLevel s ns lv Y) ?L = placeVals s (map Y ?L)"
    using placeLevel_values [of s ns lv Y] by (simp only: L)
  also have "\<dots> = map (\<lambda>v. v + c) (placeVals s (map X ?L))"
    by (simp only: Y placeVals_shift)
  also have "\<dots> = map (\<lambda>v. v + c) (map (placeLevel s ns lv X) ?L)"
    by (simp only: placeLevel_values)
  finally have "map (placeLevel s ns lv Y) ?L = map (\<lambda>i. placeLevel s ns lv X i + c) ?L"
    by (simp add: comp_def)
  then show ?thesis by (simp only: map_eq_conv set_sortedLevel)
qed

lemma levelVals_sorted:
  "map X (sortedLevel ns X lv) = sort (map X (levelIndices ns lv))"
  by (simp add: sortedLevel_def map_sort_key)

lemma placeLevel_fix:
  assumes "spaced s (sort (map X (levelIndices ns lv)))"
  shows "placeLevel s ns lv X = X"
proof
  fix j
  let ?L = "sortedLevel ns X lv"
  show "placeLevel s ns lv X j = X j"
  proof (cases "j \<in> set (levelIndices ns lv)")
    case True
    have "map (placeLevel s ns lv X) ?L = map X ?L"
      using assms by (simp add: placeLevel_values levelVals_sorted placeVals_fix)
    with True show ?thesis by (simp only: map_eq_conv set_sortedLevel)
  next
    case False
    then show ?thesis by (simp add: placeLevel_frame)
  qed
qed

lemma placeLevel_spaced:
  "spaced s (sort (map (placeLevel s ns lv X) (levelIndices ns lv)))"
proof (cases "0 \<le> s")
  case True
  let ?L = "sortedLevel ns X lv"
  let ?W = "map (placeLevel s ns lv X) ?L"
  have W: "?W = placeVals s (map X ?L)" by (rule placeLevel_values)
  then have sp: "spaced s ?W" by (simp add: spaced_placeVals)
  with True have so: "sorted ?W" by (rule spaced_sorted)
  have "mset ?W = mset (map (placeLevel s ns lv X) (levelIndices ns lv))"
    by (simp add: sortedLevel_def)
  then have "sort (map (placeLevel s ns lv X) (levelIndices ns lv)) = ?W"
    using so by (rule properties_for_sort)
  with sp show ?thesis by simp
next
  case False
  then show ?thesis by (intro sorted_spaced) simp_all
qed

lemma placeLevel_idem: "placeLevel s ns lv (placeLevel s ns lv X) = placeLevel s ns lv X"
  by (rule placeLevel_fix) (rule placeLevel_spaced)

subsection \<open>All levels\<close>

lemma fold_placeLevel_at:
  "distinct ls \<Longrightarrow>
   fold (placeLevel s ns) ls X j =
     (if j < length ns \<and> node_y (ns ! j) \<in> set ls then placeLevel s ns (node_y (ns ! j)) X j
      else X j)"
proof (induction ls arbitrary: X)
  case Nil
  then show ?case by simp
next
  case (Cons l ls)
  let ?X1 = "placeLevel s ns l X"
  from Cons.prems have d: "distinct ls" and l: "l \<notin> set ls" by auto
  have step: "fold (placeLevel s ns) (l # ls) X j = fold (placeLevel s ns) ls ?X1 j" by simp
  show ?case
  proof (cases "j < length ns \<and> node_y (ns ! j) \<in> set ls")
    case True
    let ?m = "node_y (ns ! j)"
    from True l have ne: "?m \<noteq> l" by auto
    have "\<forall>i\<in>set (levelIndices ns ?m). ?X1 i = X i + 0"
      using ne by (auto simp: set_levelIndices placeLevel_frame)
    from placeLevel_rel [OF this, of s] True
    have "placeLevel s ns ?m ?X1 j = placeLevel s ns ?m X j"
      by (simp add: set_levelIndices)
    with True step Cons.IH [OF d, of ?X1] show ?thesis by simp
  next
    case False
    have "fold (placeLevel s ns) ls ?X1 j = ?X1 j"
      by (subst Cons.IH [OF d]) (use False in \<open>simp only: if_False\<close>)
    with step have fo: "fold (placeLevel s ns) (l # ls) X j = ?X1 j" by simp
    show ?thesis
    proof (cases "j < length ns \<and> node_y (ns ! j) = l")
      case True
      with fo show ?thesis by simp
    next
      case nl: False
      then have "j \<notin> set (levelIndices ns l)" by (auto simp: set_levelIndices)
      then have "?X1 j = X j" by (rule placeLevel_frame)
      moreover have "\<not> (j < length ns \<and> node_y (ns ! j) \<in> set (l # ls))" using False nl by auto
      ultimately show ?thesis using fo by (simp only: if_False)
    qed
  qed
qed

lemma enforceStore_at:
  "enforceStore s ns X j =
     (if j < length ns then placeLevel s ns (node_y (ns ! j)) X j else X j)"
  unfolding enforceStore_def
  by (subst fold_placeLevel_at) (auto simp: levels_def)

lemma enforceStore_rel:
  assumes "\<forall>i<length ns. Y i = X i + c" and "j < length ns"
  shows "enforceStore s ns Y j = enforceStore s ns X j + c"
proof -
  have "\<forall>i\<in>set (levelIndices ns (node_y (ns ! j))). Y i = X i + c"
    using assms(1) by (simp add: set_levelIndices)
  from placeLevel_rel [OF this, of s] assms(2) show ?thesis
    by (simp add: enforceStore_at set_levelIndices)
qed

lemma enforceStore_ge: "X j \<le> enforceStore s ns X j"
  by (simp add: enforceStore_at placeLevel_ge)

lemma enforceStore_level:
  "map (enforceStore s ns X) (levelIndices ns lv) = map (placeLevel s ns lv X) (levelIndices ns lv)"
  by (simp add: enforceStore_at set_levelIndices)

lemma enforceStore_idem:
  assumes "j < length ns"
  shows "enforceStore s ns (enforceStore s ns X) j = enforceStore s ns X j"
proof -
  let ?m = "node_y (ns ! j)"
  have "\<forall>i\<in>set (levelIndices ns ?m). enforceStore s ns X i = placeLevel s ns ?m X i + 0"
    by (simp add: enforceStore_at set_levelIndices)
  from placeLevel_rel [OF this, of s] assms
  have "placeLevel s ns ?m (enforceStore s ns X) j = placeLevel s ns ?m (placeLevel s ns ?m X) j"
    by (simp add: set_levelIndices)
  then show ?thesis using assms by (simp add: enforceStore_at placeLevel_idem)
qed

subsection \<open>Node lists\<close>

lemma length_writeBack [simp]: "length (writeBack ns X) = length ns"
  by (simp add: writeBack_def)

lemma nth_writeBack [simp]: "i < length ns \<Longrightarrow> writeBack ns X ! i = (ns ! i)\<lparr>node_x := X i\<rparr>"
  by (simp add: writeBack_def)

lemma writeBack_cong:
  "(\<And>i. i < length ns \<Longrightarrow> X i = Y i) \<Longrightarrow> writeBack ns X = writeBack ns Y"
  by (simp add: writeBack_def)

lemma writeBack_xs_of: "writeBack ns (xs_of ns) = ns"
  by (rule nth_equalityI) (simp_all add: xs_of_def)

lemma same_levels:
  assumes "length ns' = length ns" and "\<And>i. i < length ns \<Longrightarrow> node_y (ns' ! i) = node_y (ns ! i)"
  shows "levels ns' = levels ns" and "levelIndices ns' = levelIndices ns"
proof -
  have "map node_y ns' = map node_y ns" using assms by (intro nth_equalityI) simp_all
  then show "levels ns' = levels ns" by (simp add: levels_def)
  show "levelIndices ns' = levelIndices ns"
  proof
    fix lv
    show "levelIndices ns' lv = levelIndices ns lv"
      unfolding levelIndices_def using assms by (auto intro: filter_cong)
  qed
qed

lemma enforceStore_same_levels:
  assumes "length ns' = length ns" and "\<And>i. i < length ns \<Longrightarrow> node_y (ns' ! i) = node_y (ns ! i)"
  shows "enforceStore s ns' = enforceStore s ns"
proof -
  have "placeLevel s ns' = placeLevel s ns"
    by (intro ext) (simp add: placeLevel_def sortedLevel_def same_levels(2) [OF assms])
  then show ?thesis
    by (intro ext) (simp add: enforceStore_def same_levels(1) [OF assms])
qed

lemma writeBack_writeBack:
  "writeBack (writeBack ns X) Y = writeBack ns Y"
  by (rule nth_equalityI) simp_all

lemma enforce_placement_idem:
  "enforce_placement r (enforce_placement r ns) = enforce_placement r ns"
proof -
  let ?s = "minSpacing r"
  let ?X = "enforceStore ?s ns (xs_of ns)"
  let ?ns' = "writeBack ns ?X"
  have E: "enforceStore ?s ?ns' = enforceStore ?s ns"
    by (rule enforceStore_same_levels) simp_all
  have "\<forall>i<length ns. xs_of ?ns' i = ?X i + 0" by (simp add: xs_of_def)
  then have "\<And>i. i < length ns \<Longrightarrow> enforceStore ?s ns (xs_of ?ns') i = ?X i"
    using enforceStore_rel [of ns "xs_of ?ns'" ?X 0 _ ?s] by (simp add: enforceStore_idem)
  then have "writeBack ns (enforceStore ?s ns (xs_of ?ns')) = writeBack ns ?X"
    by (rule writeBack_cong)
  then show ?thesis by (simp add: enforce_placement_def E writeBack_writeBack)
qed

lemma enforce_placement_ge:
  "i < length ns \<Longrightarrow> node_x (ns ! i) \<le> node_x (enforce_placement r ns ! i)"
  using enforceStore_ge [of "xs_of ns" i "minSpacing r" ns]
  by (simp add: enforce_placement_def xs_of_def)

lemma levelXs_indices: "levelXs ns lv = sort (map (xs_of ns) (levelIndices ns lv))"
proof -
  have "filter (\<lambda>n. node_y n = lv) (map ((!) ns) [0..<length ns])
        = map ((!) ns) (filter (\<lambda>i. node_y (ns ! i) = lv) [0..<length ns])"
    by (simp add: filter_map comp_def)
  then have "filter (\<lambda>n. node_y n = lv) ns = map ((!) ns) (levelIndices ns lv)"
    by (simp add: map_nth levelIndices_def)
  then show ?thesis by (simp add: levelXs_def xs_of_def comp_def)
qed

lemma enforce_placement_fix:
  assumes "nonOverlap (minSpacing r) ns"
  shows "enforce_placement r ns = ns"
proof -
  let ?s = "minSpacing r"
  have "\<And>i. i < length ns \<Longrightarrow> enforceStore ?s ns (xs_of ns) i = xs_of ns i"
  proof -
    fix i assume i: "i < length ns"
    then have "node_y (ns ! i) \<in> set (levels ns)" by (simp add: levels_def)
    with assms have "spaced ?s (sort (map (xs_of ns) (levelIndices ns (node_y (ns ! i)))))"
      by (simp add: nonOverlap_def levelXs_indices)
    then have "placeLevel ?s ns (node_y (ns ! i)) (xs_of ns) = xs_of ns" by (rule placeLevel_fix)
    with i show "enforceStore ?s ns (xs_of ns) i = xs_of ns i" by (simp add: enforceStore_at)
  qed
  then have "writeBack ns (enforceStore ?s ns (xs_of ns)) = writeBack ns (xs_of ns)"
    by (rule writeBack_cong)
  then show ?thesis by (simp add: enforce_placement_def writeBack_xs_of)
qed

lemma nonOverlap_writeBack_enforceStore:
  "nonOverlap s (writeBack ns (enforceStore s ns X))"
  unfolding nonOverlap_def
proof
  fix lv
  let ?ns' = "writeBack ns (enforceStore s ns X)"
  have same: "levelIndices ?ns' = levelIndices ns"
    by (rule same_levels(2)) simp_all
  have "map (xs_of ?ns') (levelIndices ns lv) = map (enforceStore s ns X) (levelIndices ns lv)"
    by (simp add: xs_of_def set_levelIndices)
  also have "\<dots> = map (placeLevel s ns lv X) (levelIndices ns lv)"
    by (rule enforceStore_level)
  finally have "levelXs ?ns' lv = sort (map (placeLevel s ns lv X) (levelIndices ns lv))"
    by (simp only: levelXs_indices same)
  then show "spaced s (levelXs ?ns' lv)" by (simp only: placeLevel_spaced)
qed

subsection \<open>Translation\<close>

lemma pressure_shift: "pressure (a + c) (b + c) s = pressure a b s"
  by (simp add: pressure_def Let_def)

lemma length_shiftNodes [simp]: "length (shiftNodes c ns) = length ns"
  by (simp add: shiftNodes_def)

lemma nth_shiftNodes [simp]:
  "i < length ns \<Longrightarrow> shiftNodes c ns ! i = (ns ! i)\<lparr>node_x := node_x (ns ! i) + c\<rparr>"
  by (simp add: shiftNodes_def)

lemma levels_shiftNodes: "levels (shiftNodes c ns) = levels ns"
  by (rule same_levels(1)) simp_all

lemma levelIndices_shiftNodes: "levelIndices (shiftNodes c ns) = levelIndices ns"
  by (rule same_levels(2)) simp_all

lemma resolve_shiftNodes: "resolve (shiftNodes c ns) = resolve ns"
proof
  fix ident
  have "filter (\<lambda>j. node_data (shiftNodes c ns ! j) = ident) [0..<length ns]
        = filter (\<lambda>j. node_data (ns ! j) = ident) [0..<length ns]"
    by (rule filter_cong) simp_all
  then show "resolve (shiftNodes c ns) ident = resolve ns ident"
    by (simp add: resolve_def)
qed

lemma connected_shiftNodes:
  "i < length ns \<Longrightarrow> connected g (shiftNodes c ns) i = connected g ns i"
  by (simp add: connected_def resolve_shiftNodes)

lemma resolve_bound: "resolve ns ident = Some j \<Longrightarrow> j < length ns"
proof -
  assume a: "resolve ns ident = Some j"
  then obtain rest where "filter (\<lambda>j. node_data (ns ! j) = ident) [0..<length ns] = j # rest"
    by (auto simp: resolve_def split: list.splits)
  then have "j \<in> set (filter (\<lambda>j. node_data (ns ! j) = ident) [0..<length ns])" by simp
  then show ?thesis by simp
qed

lemma connected_bound: "j \<in> set (connected g ns i) \<Longrightarrow> j < length ns"
  by (auto simp: connected_def map_filter_def resolve_bound)

lemma centroidGravity_rel:
  assumes "\<forall>j<n. Y j = X j + (c::real)" and "\<forall>j\<in>set cs. j < n" and "i < n"
  shows "centroidGravity cs i Y = centroidGravity cs i X"
proof -
  have "map (\<lambda>j. Y j - Y i) cs = map (\<lambda>j. X j - X i) cs" using assms by simp
  then show ?thesis by (simp only: centroidGravity_def)
qed

lemma neighborPressure_rel:
  assumes "\<forall>j<n. Y j = X j + (c::real)" and "\<forall>j\<in>set order. j < n" and "k < length order"
  shows "neighborPressure s order k Y = neighborPressure s order k X"
proof -
  have here: "Y (order ! k) = X (order ! k) + c" using assms by simp
  have left: "0 < k \<Longrightarrow> Y (order ! (k - 1)) = X (order ! (k - 1)) + c" using assms by simp
  have right: "Suc k < length order \<Longrightarrow> Y (order ! Suc k) = X (order ! Suc k) + c"
    using assms by simp
  show ?thesis
    unfolding neighborPressure_def using here left right by (simp add: pressure_shift)
qed

lemma relaxNode_rel:
  assumes "\<forall>j<length ns. Y j = X j + c" and "\<forall>j\<in>set order. j < length ns"
    and "k < length order"
  shows "\<forall>j<length ns. relaxNode r (shiftNodes c ns) order k Y j = relaxNode r ns order k X j + c"
proof (intro allI impI)
  fix j assume j: "j < length ns"
  let ?i = "order ! k"
  have i: "?i < length ns" using assms(2,3) by simp
  have g: "centroidGravity (connected (dag r) ns ?i) ?i Y = centroidGravity (connected (dag r) ns ?i) ?i X"
    using assms(1) i by (intro centroidGravity_rel [of "length ns" _ _ c]) (auto dest: connected_bound)
  have p: "neighborPressure (minSpacing r) order k Y = neighborPressure (minSpacing r) order k X"
    using assms by (intro neighborPressure_rel [of "length ns" _ _ c]) auto
  show "relaxNode r (shiftNodes c ns) order k Y j = relaxNode r ns order k X j + c"
    using assms(1) i j by (simp add: relaxNode_def connected_shiftNodes g p)
qed

lemma fold_relaxNode_rel:
  assumes "\<forall>j\<in>set order. j < length ns" and "\<forall>k\<in>set ks. k < length order"
  shows "\<forall>j<length ns. Y j = X j + c \<Longrightarrow>
         \<forall>j<length ns. fold (relaxNode r (shiftNodes c ns) order) ks Y j
                         = fold (relaxNode r ns order) ks X j + c"
  using assms(2)
proof (induction ks arbitrary: X Y)
  case Nil
  then show ?case by simp
next
  case (Cons k ks)
  have "\<forall>j<length ns. relaxNode r (shiftNodes c ns) order k Y j = relaxNode r ns order k X j + c"
    using Cons.prems assms(1) by (intro relaxNode_rel) auto
  from Cons.IH [OF this] Cons.prems(2) show ?case by simp
qed

lemma sortedLevel_rel:
  assumes "\<forall>j<length ns. Y j = X j + c"
  shows "sortedLevel (shiftNodes c ns) Y lv = sortedLevel ns X lv"
  unfolding sortedLevel_def levelIndices_shiftNodes
  using assms by (intro sort_key_rel [where c = c]) (simp add: set_levelIndices)

lemma relaxPass_rel:
  assumes "\<forall>j<length ns. Y j = X j + c"
  shows "\<forall>j<length ns. relaxPass r (shiftNodes c ns) lv Y j = relaxPass r ns lv X j + c"
  unfolding relaxPass_def sortedLevel_rel [OF assms]
  using assms by (intro fold_relaxNode_rel) (auto simp: set_levelIndices)

lemma funpow_relaxPass_rel:
  "\<forall>j<length ns. Y j = X j + c \<Longrightarrow>
   \<forall>j<length ns. (relaxPass r (shiftNodes c ns) lv ^^ m) Y j = (relaxPass r ns lv ^^ m) X j + c"
proof (induction m)
  case 0
  then show ?case by simp
next
  case (Suc m)
  from relaxPass_rel [OF Suc.IH [OF Suc.prems]] show ?case by simp
qed

lemma relaxLevel_rel:
  assumes "\<forall>j<length ns. Y j = X j + c"
  shows "\<forall>j<length ns. relaxLevel r (shiftNodes c ns) lv Y j = relaxLevel r ns lv X j + c"
  unfolding relaxLevel_def using assms by (rule funpow_relaxPass_rel)

lemma fold_relaxLevel_rel:
  "\<forall>j<length ns. Y j = X j + c \<Longrightarrow>
   \<forall>j<length ns. fold (relaxLevel r (shiftNodes c ns)) ls Y j = fold (relaxLevel r ns) ls X j + c"
proof (induction ls arbitrary: X Y)
  case Nil
  then show ?case by simp
next
  case (Cons l ls)
  from Cons.IH [OF relaxLevel_rel [OF Cons.prems]] show ?case by simp
qed

lemma run_shift: "run r (shiftNodes c ns) = shiftNodes c (run r ns)"
proof -
  let ?s = "minSpacing r"
  let ?X = "fold (relaxLevel r ns) (levels ns) (xs_of ns)"
  let ?Y = "fold (relaxLevel r (shiftNodes c ns)) (levels ns) (xs_of (shiftNodes c ns))"
  have "\<forall>j<length ns. xs_of (shiftNodes c ns) j = xs_of ns j + c" by (simp add: xs_of_def)
  then have "\<forall>j<length ns. ?Y j = ?X j + c" by (rule fold_relaxLevel_rel)
  then have rel: "\<And>j. j < length ns \<Longrightarrow> enforceStore ?s ns ?Y j = enforceStore ?s ns ?X j + c"
    by (rule enforceStore_rel)
  have E: "enforceStore ?s (shiftNodes c ns) = enforceStore ?s ns"
    by (rule enforceStore_same_levels) simp_all
  show ?thesis
    by (rule nth_equalityI) (simp_all add: run_def levels_shiftNodes E rel)
qed

subsection \<open>Pressure\<close>

text \<open>
  Claim C5, as amended. For every two nodes and every minimum spacing, with the gap the
  distance of the two x: \<open>get_pressure\<close> is \<open>-(minSpacing - gap)\<close> when the first node
  is to the right of the second and the gap is below the minimum spacing,
  \<open>minSpacing - gap\<close> when the first node is to the left of the second and the gap is
  below the minimum spacing, and 0 when the gap is at least the minimum spacing. With A
  at 50, B at 0 and size 100 it is -50; with A at 0 and B at 50 it is 50; with a gap
  equal to the size it is 0.
\<close>

theorem get_pressure_sign_convention:
  "(node_x b < node_x a \<and> \<bar>node_x b - node_x a\<bar> < spacing
      \<longrightarrow> get_pressure a b spacing = - (spacing - \<bar>node_x b - node_x a\<bar>))
   \<and> (node_x a < node_x b \<and> \<bar>node_x b - node_x a\<bar> < spacing
      \<longrightarrow> get_pressure a b spacing = spacing - \<bar>node_x b - node_x a\<bar>)
   \<and> (spacing \<le> \<bar>node_x b - node_x a\<bar> \<longrightarrow> get_pressure a b spacing = 0)
   \<and> get_pressure (createMockNode ''A'' 50 0) (createMockNode ''B'' 0 0) 100 = - 50
   \<and> get_pressure (createMockNode ''A'' 0 0) (createMockNode ''B'' 50 0) 100 = 50
   \<and> get_pressure (createMockNode ''A'' 0 0) (createMockNode ''B'' 100 0) 100 = 0"
  by (simp add: get_pressure_def pressure_def Let_def createMockNode_def)

theorem get_pressure_sign_convention_witness:
  "get_pressure (createMockNode ''A'' 30 0) (createMockNode ''B'' 0 0) 100 = - 70
   \<and> get_pressure (createMockNode ''A'' 0 0) (createMockNode ''B'' 30 0) 100 = 70
   \<and> get_pressure (createMockNode ''A'' 0 0) (createMockNode ''B'' 200 0) 100 = 0"
  using get_pressure_sign_convention
          [where a = "createMockNode ''A'' 30 0" and b = "createMockNode ''B'' 0 0"
             and spacing = 100]
        get_pressure_sign_convention
          [where a = "createMockNode ''A'' 0 0" and b = "createMockNode ''B'' 30 0"
             and spacing = 100]
        get_pressure_sign_convention
          [where a = "createMockNode ''A'' 0 0" and b = "createMockNode ''B'' 200 0"
             and spacing = 100]
  by (simp add: createMockNode_def)

text \<open>
  Claim C5 as stated fails on its own example: with A at 50, B at 0 and size 100 the
  pressure is -50, as the test of \<open>get_pressure\<close> asserts, and not 50.
\<close>

theorem get_pressure_sign_counterexample:
  "get_pressure (createMockNode ''A'' 50 0) (createMockNode ''B'' 0 0) 100 = - 50
   \<and> get_pressure (createMockNode ''A'' 50 0) (createMockNode ''B'' 0 0) 100 \<noteq> 50"
  by (simp add: get_pressure_def pressure_def Let_def createMockNode_def)

text \<open>
  The calls of the test of \<open>get_pressure\<close> and of the test of \<open>get_gravity\<close>, with the
  arguments in the order of the test (\<open>nodes[1]\<close> first, \<open>nodes[0]\<close> second), have the
  values the test expects.
\<close>

lemma get_pressure_test_calls:
  "get_pressure (createMockNode ''mem_1'' 200 0) (createMockNode ''mem_0'' 0 0) 100 = 0"
  "get_pressure (createMockNode ''mem_1'' 50 0) (createMockNode ''mem_0'' 0 0) 100 = - 50"
  "get_pressure (createMockNode ''mem_1'' 0 0) (createMockNode ''mem_0'' 50 0) 100 = 50"
  "\<bar>get_pressure (createMockNode ''mem_1'' 100 0) (createMockNode ''mem_0'' 0 0) 100\<bar> = 0"
  by (simp_all add: get_pressure_def pressure_def Let_def createMockNode_def)

lemma get_gravity_test_calls:
  "get_gravity (createMockNode ''mem_1'' 100 0) (createMockNode ''mem_0'' 0 0) = 100"
  "get_gravity (createMockNode ''mem_1'' 0 0) (createMockNode ''mem_0'' 100 0) = - 100"
  "get_gravity (createMockNode ''mem_1'' 50 0) (createMockNode ''mem_0'' 50 0) = 0"
  by (simp_all add: get_gravity_def createMockNode_def)

subsection \<open>Placement\<close>

lemma length_enforce_placement: "length (enforce_placement r ns) = length ns"
  by (simp add: enforce_placement_def)

text \<open>
  Claim C7. Applying \<open>enforce_placement\<close> twice gives the same node list as applying it
  once; it keeps the length of the list and never decreases the x of a node; and a node
  list whose levels are already spaced by the minimum spacing is returned unchanged.
\<close>

theorem enforce_placement_idempotent:
  "enforce_placement r (enforce_placement r ns) = enforce_placement r ns
   \<and> length (enforce_placement r ns) = length ns
   \<and> (\<forall>i<length ns. node_x (ns ! i) \<le> node_x (enforce_placement r ns ! i))
   \<and> (nonOverlap (minSpacing r) ns \<longrightarrow> enforce_placement r ns = ns)"
  using enforce_placement_idem enforce_placement_ge enforce_placement_fix length_enforce_placement
  by blast

lemma placement_values:
  "map node_x (enforce_placement testEngine tooClose) = [0, 100, 200]"
  "nonOverlap (minSpacing testEngine) wellSpaced"
  "map node_x tooClose = [0, 50, 100]"
  "length tooClose = 3"
  by code_simp+

theorem enforce_placement_idempotent_witness:
  "map node_x tooClose = [0, 50, 100]
   \<and> map node_x (enforce_placement testEngine tooClose) = [0, 100, 200]
   \<and> map node_x (enforce_placement testEngine (enforce_placement testEngine tooClose)) = [0, 100, 200]
   \<and> node_x (tooClose ! 1) \<le> node_x (enforce_placement testEngine tooClose ! 1)
   \<and> nonOverlap (minSpacing testEngine) wellSpaced
   \<and> enforce_placement testEngine wellSpaced = wellSpaced"
  using enforce_placement_idempotent [of testEngine tooClose]
        enforce_placement_idempotent [of testEngine wellSpaced]
        placement_values
  by simp

subsection \<open>Run\<close>

text \<open>
  Claim C1. After \<open>run\<close>, for every engine, graph and node list, in every level the x
  coordinates in ascending order are pairwise adjacent at least the node size apart.
\<close>

theorem run_non_overlap: "nonOverlap (minSpacing r) (run r ns)"
  unfolding run_def by (rule nonOverlap_writeBack_enforceStore)

lemma run_values:
  "map node_x (run testEngine crowded) = [- 45, 55, 155]"
  "levels (run testEngine crowded) = [0]"
  "levelXs (run testEngine crowded) 0 = [- 45, 55, 155]"
  "minSpacing testEngine = 100"
  by code_simp+

theorem run_non_overlap_witness:
  "nonOverlap 100 (run testEngine crowded)
   \<and> levels (run testEngine crowded) = [0]
   \<and> levelXs (run testEngine crowded) 0 = [- 45, 55, 155]"
  using run_non_overlap [of testEngine crowded] run_values by simp

text \<open>
  Claim C6. Shifting every x of the input by a constant before \<open>run\<close> shifts every x of
  the output by the same constant, for every constant, negative and large ones included.
  Over the reals the equality is exact.
\<close>

theorem run_translation_invariant: "run r (shiftNodes c ns) = shiftNodes c (run r ns)"
  by (rule run_shift)

lemma shifted_values:
  "map node_x (shiftNodes (- 1000000) crowded) = [- 1000000, - 999990, - 999980]"
  "map node_x (shiftNodes (- 1000000) (run testEngine crowded)) = [- 1000045, - 999945, - 999845]"
  by code_simp+

theorem run_translation_invariant_witness:
  "map node_x (shiftNodes (- 1000000) crowded) = [- 1000000, - 999990, - 999980]
   \<and> map node_x (run testEngine (shiftNodes (- 1000000) crowded)) = [- 1000045, - 999945, - 999845]"
  using run_translation_invariant [of testEngine "- 1000000" crowded] shifted_values by simp

end
